theory Spec2Isabelle
  imports Main "HOL-Library.Multiset"
begin

section \<open>Cards\<close>

text \<open>
  The class \<open>Suit\<close> is an enumeration. A \<open>Card\<close> is built from a rank string and a suit;
  \<open>_set_values\<close> derives \<open>values\<close> and \<open>numeric_value\<close> from the rank. The rank strings
  the program creates are \<open>'A'\<close>, \<open>'J'\<close>, \<open>'Q'\<close>, \<open>'K'\<close> and decimal numbers
  (\<open>'2'\<close> to \<open>'10'\<close> in the deck); \<open>Pip n\<close> stands for the rank string that \<open>int\<close> reads
  as \<open>n\<close>. Equality of cards is equality of rank and suit, as \<open>__eq__\<close> has it.
\<close>

datatype suit = SPADES | HEARTS | DIAMONDS | CLUBS

datatype rank = Pip nat | Jack | Queen | King | Ace

record card =
  rank :: rank
  suit :: suit

abbreviation Card :: "rank \<Rightarrow> suit \<Rightarrow> card" where
  "Card r s \<equiv> \<lparr>rank = r, suit = s\<rparr>"

text \<open>The attribute \<open>values\<close> of \<open>_set_values\<close>: an ace counts 1 or 14.\<close>

definition card_values :: "card \<Rightarrow> int list" where
  "card_values c =
     (case rank c of
        Ace \<Rightarrow> [1, 14]
      | Jack \<Rightarrow> [11]
      | Queen \<Rightarrow> [12]
      | King \<Rightarrow> [13]
      | Pip n \<Rightarrow> [int n])"

text \<open>The attribute \<open>numeric_value\<close> of \<open>_set_values\<close>: the low value of an ace.\<close>

definition numeric_value :: "card \<Rightarrow> int" where
  "numeric_value c =
     (case rank c of
        Ace \<Rightarrow> 1
      | Jack \<Rightarrow> 11
      | Queen \<Rightarrow> 12
      | King \<Rightarrow> 13
      | Pip n \<Rightarrow> int n)"

section \<open>Builds, players and the game state\<close>

text \<open>
  A \<open>Build\<close> is a mutable object: the layout, the capture groups and the build
  configurations hold references to it, and \<open>execute_build\<close> changes it in place. The
  model keeps the builds in a store, \<open>heap\<close>, from references to build values; a layout
  item is a loose card or a reference to a build.
\<close>

type_synonym ref = nat

record build =
  cards :: "card list"
  total_value :: int
  owner :: nat
  is_augmented :: bool

datatype item = CardItem card | BuildItem ref

text \<open>
  A \<open>Player\<close>; its \<open>id\<close> is its position in \<open>players\<close>, as \<open>_create_players\<close> assigns it.
  The attributes \<open>name\<close>, \<open>score\<close> and \<open>is_ai\<close> are not read by the rules below.
\<close>

record player =
  hand :: "card list"
  capture_pile :: "card list"
  last_capture :: bool

text \<open>
  The game object. \<open>next_ref\<close> is the address the next new \<open>Build\<close> object gets. The
  statistics lists \<open>captures_this_turn\<close> and \<open>builds_created\<close> are written and never read.
\<close>

record game =
  deck :: "card list"
  players :: "player list"
  layout :: "item list"
  heap :: "ref \<Rightarrow> build"
  next_ref :: ref
  partnerships :: "(nat \<times> nat) list option"

definition num_players :: "game \<Rightarrow> nat" where
  "num_players g = length (players g)"

definition is_partnership_game :: "game \<Rightarrow> bool" where
  "is_partnership_game g = (partnerships g \<noteq> None)"

definition spy_two :: card where
  "spy_two = Card (Pip 2) SPADES"

definition big_ten :: card where
  "big_ten = Card (Pip 10) DIAMONDS"

subsection \<open>Errors\<close>

datatype error = IndexError | ValueError | KeyError | TypeError

datatype 'a outcome = Returned 'a | Raised error

subsection \<open>Player methods\<close>

definition add_to_hand :: "player \<Rightarrow> card \<Rightarrow> player" where
  "add_to_hand p c = p\<lparr>hand := hand p @ [c]\<rparr>"

text \<open>\<open>play_card\<close>: \<open>hand.pop(card_index)\<close>, or IndexError.\<close>

definition play_card :: "player \<Rightarrow> int \<Rightarrow> error + (card \<times> player)" where
  "play_card p card_index =
     (if 0 \<le> card_index \<and> card_index < int (length (hand p))
      then Inr (hand p ! nat card_index,
                p\<lparr>hand := take (nat card_index) (hand p) @ drop (Suc (nat card_index)) (hand p)\<rparr>)
      else Inl IndexError)"

definition capture_cards :: "player \<Rightarrow> card list \<Rightarrow> player" where
  "capture_cards p cs = p\<lparr>capture_pile := capture_pile p @ cs\<rparr>"

definition get_top_card :: "player \<Rightarrow> card option" where
  "get_top_card p = (if capture_pile p \<noteq> [] then Some (last (capture_pile p)) else None)"

definition count_cards :: "player \<Rightarrow> int" where
  "count_cards p = int (length (capture_pile p))"

definition count_spades :: "player \<Rightarrow> int" where
  "count_spades p = int (length (filter (\<lambda>c. suit c = SPADES) (capture_pile p)))"

definition has_card :: "player \<Rightarrow> card \<Rightarrow> bool" where
  "has_card p c = (c \<in> set (hand p))"

section \<open>Layout queries\<close>

fun loose_cards :: "item list \<Rightarrow> card list" where
  "loose_cards [] = []"
| "loose_cards (CardItem c # xs) = c # loose_cards xs"
| "loose_cards (BuildItem r # xs) = loose_cards xs"

fun build_refs :: "item list \<Rightarrow> ref list" where
  "build_refs [] = []"
| "build_refs (CardItem c # xs) = build_refs xs"
| "build_refs (BuildItem r # xs) = r # build_refs xs"

definition get_loose_cards :: "game \<Rightarrow> card list" where
  "get_loose_cards g = loose_cards (layout g)"

definition get_builds :: "game \<Rightarrow> ref list" where
  "get_builds g = build_refs (layout g)"

definition get_owned_builds :: "game \<Rightarrow> nat \<Rightarrow> ref list" where
  "get_owned_builds g player_id = filter (\<lambda>b. owner (heap g b) = player_id) (get_builds g)"

section \<open>Value resolution\<close>

text \<open>
  One round of the outer loop of \<open>calculate_total\<close>: every total so far plus every value
  of the card.
\<close>

definition add_card_totals :: "int set \<Rightarrow> card \<Rightarrow> int set" where
  "add_card_totals totals c = (\<Union>total\<in>totals. \<Union>v\<in>set (card_values c). {total + v})"

definition calculate_total :: "card list \<Rightarrow> int list" where
  "calculate_total cs = sorted_list_of_set (foldl add_card_totals {0} cs)"

section \<open>Capture search\<close>

text \<open>
  \<open>itertools.combinations(xs, r)\<close>: the sublists of \<open>r\<close> positions, in lexicographic
  order of the positions.
\<close>

fun combinations :: "'a list \<Rightarrow> nat \<Rightarrow> 'a list list" where
  "combinations xs 0 = [[]]"
| "combinations [] (Suc r) = []"
| "combinations (x # xs) (Suc r) = map ((#) x) (combinations xs r) @ combinations (xs) (Suc r)"

definition single_match :: "game \<Rightarrow> card \<Rightarrow> item \<Rightarrow> bool" where
  "single_match g played_card target =
     (case target of
        CardItem c \<Rightarrow> numeric_value played_card = numeric_value c
      | BuildItem b \<Rightarrow> numeric_value played_card = total_value (heap g b))"

definition find_captures :: "game \<Rightarrow> card \<Rightarrow> nat \<Rightarrow> item list list" where
  "find_captures g played_card player =
     (let all_targets = map CardItem (get_loose_cards g) @ map BuildItem (get_builds g);
          singles = [[target]. target \<leftarrow> all_targets, single_match g played_card target];
          loose = get_loose_cards g;
          n = length loose;
          multi = [map CardItem combo.
                     r \<leftarrow> [2 ..< n + 1], combo \<leftarrow> combinations loose r,
                     numeric_value played_card \<in> set (calculate_total combo)];
          with_build = [map CardItem combo @ [BuildItem b].
                     b \<leftarrow> get_builds g, combo \<leftarrow> combinations loose 1,
                     numeric_value played_card \<in>
                       set (map (\<lambda>t. t + total_value (heap g b)) (calculate_total combo))]
      in singles @ multi @ with_build)"

section \<open>Build legality\<close>

text \<open>
  The dictionaries that \<open>can_create_build\<close> and \<open>can_augment_build\<close> return and that
  \<open>execute_build\<close> reads: one optional field for each key, \<open>None\<close> for a key that is
  not in the dictionary.
\<close>

record build_config =
  c_type :: "string option"
  c_cards :: "card list option"
  c_played_card :: "card option"
  c_total_value :: "int option"
  c_action :: "string option"
  c_build :: "ref option"
  c_new_total :: "int option"
  c_augmenting_card :: "card option"
  c_cards_used :: "card list option"

definition empty_config :: build_config where
  "empty_config = \<lparr>c_type = None, c_cards = None, c_played_card = None, c_total_value = None,
     c_action = None, c_build = None, c_new_total = None, c_augmenting_card = None,
     c_cards_used = None\<rparr>"

definition available_capture_values :: "game \<Rightarrow> card \<Rightarrow> nat \<Rightarrow> int list" where
  "available_capture_values g played_card player =
     [numeric_value c. c \<leftarrow> hand (players g ! player), c \<noteq> played_card]"

definition single_config :: "card list \<Rightarrow> card \<Rightarrow> int \<Rightarrow> build_config" where
  "single_config combo_cards played_card t =
     empty_config\<lparr>c_cards := Some combo_cards, c_played_card := Some played_card,
       c_total_value := Some t, c_type := Some ''single''\<rparr>"



definition are_partners :: "game \<Rightarrow> nat \<Rightarrow> nat \<Rightarrow> bool" where
  "are_partners g player1_id player2_id =
     (case partnerships g of
        None \<Rightarrow> False
      | Some ps \<Rightarrow> ps \<noteq> [] \<and> (\<exists>(a, b) \<in> set ps. {a, b} = {player1_id, player2_id}))"

definition is_opponent :: "game \<Rightarrow> nat \<Rightarrow> nat \<Rightarrow> bool" where
  "is_opponent g player i =
     (i \<noteq> player \<and> (\<not> is_partnership_game g \<or> \<not> are_partners g player i))"

definition opponent_top_cards :: "game \<Rightarrow> nat \<Rightarrow> card list" where
  "opponent_top_cards g player =
     concat [case get_top_card (players g ! i) of None \<Rightarrow> [] | Some top_card \<Rightarrow> [top_card].
               i \<leftarrow> [0 ..< length (players g)], is_opponent g player i]"

definition change_config :: "ref \<Rightarrow> card \<Rightarrow> int \<Rightarrow> build_config" where
  "change_config b played_card new_total =
     empty_config\<lparr>c_build := Some b, c_played_card := Some played_card,
       c_new_total := Some new_total, c_action := Some ''change_opponent_build'',
       c_cards_used := Some [played_card]\<rparr>"

definition augment_config :: "ref \<Rightarrow> card \<Rightarrow> card \<Rightarrow> build_config" where
  "augment_config b played_card c =
     empty_config\<lparr>c_build := Some b, c_played_card := Some played_card,
       c_action := Some ''augment_own_build'', c_augmenting_card := Some c,
       c_cards_used := Some [played_card, c]\<rparr>"

definition augmentations_of :: "game \<Rightarrow> card \<Rightarrow> nat \<Rightarrow> ref \<Rightarrow> build_config list" where
  "augmentations_of g played_card player b =
     (if owner (heap g b) \<noteq> player \<and>
         (\<not> is_partnership_game g \<or> \<not> are_partners g player (owner (heap g b)))
      then [change_config b played_card new_total.
              new_total \<leftarrow> calculate_total (cards (heap g b) @ [played_card]),
              new_total \<in> set (available_capture_values g played_card player)]
      else []) @
     (if owner (heap g b) = player \<or>
         (is_partnership_game g \<and> are_partners g player (owner (heap g b)))
      then [augment_config b played_card c.
              c \<leftarrow> get_loose_cards g @ opponent_top_cards g player,
              card_value \<leftarrow> card_values c, card_value = total_value (heap g b)]
      else [])"

definition can_augment_build :: "game \<Rightarrow> card \<Rightarrow> nat \<Rightarrow> build_config list" where
  "can_augment_build g played_card player =
     concat (map (augmentations_of g played_card player) (get_builds g))"

section \<open>Execution\<close>

text \<open>
  Equality of layout items as \<open>list.remove\<close> and \<open>in\<close> see it: two cards are equal by
  rank and suit, two builds by their fields (\<open>Build\<close> is a dataclass), a card and a build
  never. An item is therefore compared by the value it stands for.
\<close>

definition item_value :: "(ref \<Rightarrow> build) \<Rightarrow> item \<Rightarrow> card + build" where
  "item_value h x = (case x of CardItem c \<Rightarrow> Inl c | BuildItem b \<Rightarrow> Inr (h b))"

text \<open>\<open>layout.remove(x)\<close>: drops the first equal element; \<open>None\<close> is the ValueError.\<close>

fun list_remove :: "(ref \<Rightarrow> build) \<Rightarrow> item \<Rightarrow> item list \<Rightarrow> item list option" where
  "list_remove h x [] = None"
| "list_remove h x (y # ys) =
     (if item_value h y = item_value h x then Some ys
      else map_option ((#) y) (list_remove h x ys))"

definition item_cards :: "(ref \<Rightarrow> build) \<Rightarrow> item \<Rightarrow> card list" where
  "item_cards h x = (case x of CardItem c \<Rightarrow> [c] | BuildItem b \<Rightarrow> cards (h b))"

text \<open>
  The removal loop of \<open>execute_capture\<close>: the layout and \<open>cards_to_capture\<close> after the
  loop, or the layout at the moment \<open>remove\<close> raised.
\<close>

fun remove_captured ::
  "(ref \<Rightarrow> build) \<Rightarrow> item list \<Rightarrow> item list \<Rightarrow> card list \<Rightarrow> error option \<times> item list \<times> card list"
where
  "remove_captured h [] lay acc = (None, lay, acc)"
| "remove_captured h (x # xs) lay acc =
     (case list_remove h x lay of
        None \<Rightarrow> (Some ValueError, lay, acc @ item_cards h x)
      | Some lay' \<Rightarrow> remove_captured h xs lay' (acc @ item_cards h x))"

definition mark_last_capture :: "player list \<Rightarrow> nat \<Rightarrow> player list" where
  "mark_last_capture ps player =
     (map (\<lambda>p. p\<lparr>last_capture := False\<rparr>) ps)
       [player := (ps ! player)\<lparr>last_capture := True\<rparr>]"

definition execute_capture :: "game \<Rightarrow> nat \<Rightarrow> card \<Rightarrow> item list \<Rightarrow> bool outcome \<times> game" where
  "execute_capture g player played_card capture_group =
     (if capture_group = [] then (Returned False, g)
      else
        (case remove_captured (heap g) capture_group (layout g) [] of
           (Some e, lay, cards_to_capture) \<Rightarrow> (Raised e, g\<lparr>layout := lay\<rparr>)
         | (None, lay, cards_to_capture) \<Rightarrow>
             (let all_captured = [played_card] @ cards_to_capture;
                  ps = (players g)[player := capture_cards (players g ! player) all_captured]
              in (Returned True, g\<lparr>players := mark_last_capture ps player, layout := lay\<rparr>))))"

text \<open>The removal loop of the creation branch of \<open>execute_build\<close>.\<close>

fun remove_used :: "(ref \<Rightarrow> build) \<Rightarrow> card list \<Rightarrow> item list \<Rightarrow> error option \<times> item list" where
  "remove_used h [] lay = (None, lay)"
| "remove_used h (c # cs) lay =
     (case list_remove h (CardItem c) lay of
        None \<Rightarrow> (Some ValueError, lay)
      | Some lay' \<Rightarrow> remove_used h cs lay')"

definition execute_build :: "game \<Rightarrow> nat \<Rightarrow> card \<Rightarrow> build_config \<Rightarrow> bool outcome \<times> game" where
  "execute_build g player played_card cfg =
     (let build_type = (case c_type cfg of None \<Rightarrow> ''single'' | Some t \<Rightarrow> t) in
      if build_type = ''single'' then
        (case c_cards cfg of
           None \<Rightarrow> (Raised KeyError, g)
         | Some config_cards \<Rightarrow>
        (case c_total_value cfg of
           None \<Rightarrow> (Raised KeyError, g)
         | Some tv \<Rightarrow>
             (let new_build = \<lparr>cards = config_cards @ [played_card], total_value = tv,
                                owner = player, is_augmented = False\<rparr>
              in case remove_used (heap g) config_cards (layout g) of
                   (Some e, lay) \<Rightarrow> (Raised e, g\<lparr>layout := lay\<rparr>)
                 | (None, lay) \<Rightarrow>
                     (Returned True,
                      g\<lparr>layout := lay @ [BuildItem (next_ref g)],
                        heap := (heap g)(next_ref g := new_build),
                        next_ref := Suc (next_ref g)\<rparr>))))
      else
        (case c_action cfg of
           None \<Rightarrow> (Returned False, g)
         | Some action \<Rightarrow>
             if action = ''change_opponent_build'' then
               (case c_build cfg of
                  None \<Rightarrow> (Raised KeyError, g)
                | Some b \<Rightarrow>
                    (let b1 = (heap g b)\<lparr>cards := cards (heap g b) @ [played_card]\<rparr> in
                     case c_new_total cfg of
                       None \<Rightarrow> (Raised KeyError, g\<lparr>heap := (heap g)(b := b1)\<rparr>)
                     | Some new_total \<Rightarrow>
                         (Returned True,
                          g\<lparr>heap := (heap g)(b := b1\<lparr>total_value := new_total, owner := player\<rparr>)\<rparr>)))
             else if action = ''augment_own_build'' then
               (case c_build cfg of
                  None \<Rightarrow> (Raised KeyError, g)
                | Some b \<Rightarrow>
               (case c_augmenting_card cfg of
                  None \<Rightarrow> (Raised KeyError, g)
                | Some augmenting_card \<Rightarrow>
                    (case (if augmenting_card \<in> set (get_loose_cards g)
                           then list_remove (heap g) (CardItem augmenting_card) (layout g)
                           else Some (layout g)) of
                       None \<Rightarrow> (Raised ValueError, g)
                     | Some lay \<Rightarrow>
                         (Returned True,
                          g\<lparr>layout := lay,
                            heap := (heap g)(b := (heap g b)
                              \<lparr>cards := cards (heap g b) @ [played_card, augmenting_card],
                               is_augmented := True\<rparr>)\<rparr>))))
             else (Returned False, g)))"


section \<open>End of hand\<close>

text \<open>The first player whose \<open>last_capture\<close> is set, as the loop with \<open>break\<close> finds it.\<close>

fun find_last_capturer :: "player list \<Rightarrow> nat option" where
  "find_last_capturer [] = None"
| "find_last_capturer (p # ps) =
     (if last_capture p then Some 0 else map_option Suc (find_last_capturer ps))"

definition end_of_hand_cleanup :: "game \<Rightarrow> game" where
  "end_of_hand_cleanup g =
     (case find_last_capturer (players g) of
        None \<Rightarrow> g
      | Some i \<Rightarrow>
          if layout g \<noteq> [] then
            (let remaining_cards = concat (map (item_cards (heap g)) (layout g));
                 ps = (if remaining_cards \<noteq> []
                       then (players g)[i := capture_cards (players g ! i) remaining_cards]
                       else players g)
             in g\<lparr>players := ps, layout := []\<rparr>)
          else g)"

definition check_game_over :: "game \<Rightarrow> bool" where
  "check_game_over g = (\<forall>p \<in> set (players g). length (hand p) = 0)"

section \<open>Scoring\<close>

text \<open>
  A key of the counting dictionaries of \<open>calculate_scores\<close>: the id of a player, or the
  sorted tuple of a player and the partner.
\<close>

datatype key = PlayerKey nat | PairKey "nat list"

fun partner_in :: "(nat \<times> nat) list \<Rightarrow> nat \<Rightarrow> nat option" where
  "partner_in [] player_id = None"
| "partner_in ((p1, p2) # ps) player_id =
     (if p1 = player_id then Some p2
      else if p2 = player_id then Some p1
      else partner_in ps player_id)"

definition get_partner_id :: "game \<Rightarrow> nat \<Rightarrow> nat option" where
  "get_partner_id g player_id =
     (case partnerships g of None \<Rightarrow> None | Some ps \<Rightarrow> partner_in ps player_id)"

text \<open>
  The key of a player. \<open>sorted\<close> of an id and \<open>None\<close> raises TypeError: a player of a
  partnership game who is in no partnership.
\<close>

definition score_key :: "game \<Rightarrow> nat \<Rightarrow> error + key" where
  "score_key g player_id =
     (if is_partnership_game g then
        (case get_partner_id g player_id of
           None \<Rightarrow> Inl TypeError
         | Some partner_id \<Rightarrow> Inr (PairKey (sort [player_id, partner_id])))
      else Inr (PlayerKey player_id))"

text \<open>\<open>d[key] += n\<close> on a \<open>defaultdict(int)\<close>, kept in insertion order.\<close>

fun dd_add :: "key \<Rightarrow> int \<Rightarrow> (key \<times> int) list \<Rightarrow> (key \<times> int) list" where
  "dd_add k n [] = [(k, 0 + n)]"
| "dd_add k n ((k', v) # kvs) = (if k' = k then (k', v + n) # kvs else (k', v) # dd_add k n kvs)"

text \<open>A loop whose body may raise.\<close>

fun fold_err :: "('a \<Rightarrow> 's \<Rightarrow> error + 's) \<Rightarrow> 'a list \<Rightarrow> 's \<Rightarrow> error + 's" where
  "fold_err f [] s = Inr s"
| "fold_err f (x # xs) s = (case f x s of Inl e \<Rightarrow> Inl e | Inr s' \<Rightarrow> fold_err f xs s')"

text \<open>
  The body of the first loop of \<open>calculate_scores\<close> for the player at position \<open>i\<close>, on
  \<open>card_counts\<close>, \<open>spade_counts\<close> and \<open>special_scores\<close>.
\<close>

definition tally_player ::
  "game \<Rightarrow> nat \<Rightarrow> (key \<times> int) list \<times> (key \<times> int) list \<times> (key \<times> int) list
     \<Rightarrow> error + ((key \<times> int) list \<times> (key \<times> int) list \<times> (key \<times> int) list)" where
  "tally_player g i counts =
     (case score_key g i of
        Inl e \<Rightarrow> Inl e
      | Inr k \<Rightarrow>
          (case counts of (card_counts, spade_counts, special_scores) \<Rightarrow>
            (let p = players g ! i;
                 card_counts1 = dd_add k (count_cards p) card_counts;
                 spade_counts1 = dd_add k (count_spades p) spade_counts;
                 special1 = (if has_card p spy_two \<or> spy_two \<in> set (capture_pile p)
                             then dd_add k 1 special_scores else special_scores);
                 special2 = (if has_card p big_ten \<or> big_ten \<in> set (capture_pile p)
                             then dd_add k 2 special1 else special1);
                 ace_count = int (length (filter (\<lambda>c. rank c = Ace) (capture_pile p)))
             in Inr (card_counts1, spade_counts1, dd_add k ace_count special2))))"

definition tally ::
  "game \<Rightarrow> error + ((key \<times> int) list \<times> (key \<times> int) list \<times> (key \<times> int) list)" where
  "tally g = fold_err (tally_player g) [0 ..< length (players g)] ([], [], [])"

text \<open>\<open>scores[pid] += n\<close>; KeyError for an id that is no player's.\<close>

definition add_score :: "nat \<Rightarrow> int \<Rightarrow> (nat \<rightharpoonup> int) \<Rightarrow> error + (nat \<rightharpoonup> int)" where
  "add_score pid n scores =
     (case scores pid of None \<Rightarrow> Inl KeyError | Some v \<Rightarrow> Inr (scores(pid \<mapsto> v + n)))"

definition add_key_score :: "key \<Rightarrow> int \<Rightarrow> (nat \<rightharpoonup> int) \<Rightarrow> error + (nat \<rightharpoonup> int)" where
  "add_key_score k n scores =
     (case k of
        PairKey pids \<Rightarrow> fold_err (\<lambda>pid. add_score pid n) pids scores
      | PlayerKey pid \<Rightarrow> add_score pid n scores)"

text \<open>
  The award for most cards, and again for most spades: 2 points to a single winner, 1
  point to each winner of a tie. \<open>max\<close> of no values raises ValueError.
\<close>

definition award_most :: "(key \<times> int) list \<Rightarrow> (nat \<rightharpoonup> int) \<Rightarrow> error + (nat \<rightharpoonup> int)" where
  "award_most counts scores =
     (case map snd counts of
        [] \<Rightarrow> Inl ValueError
      | v # vs \<Rightarrow>
          (let max_count = fold max vs v;
               winners = map fst (filter (\<lambda>(k, c). c = max_count) counts)
           in if length winners = 1 then add_key_score (hd winners) 2 scores
              else fold_err (\<lambda>winner. add_key_score winner 1) winners scores))"

definition total_points :: "game \<Rightarrow> nat" where
  "total_points g = (if is_partnership_game g \<or> num_players g = 2 then 11 else 7)"

definition award_majorities ::
  "game \<Rightarrow> (key \<times> int) list \<Rightarrow> (key \<times> int) list \<Rightarrow> error + (nat \<rightharpoonup> int)" where
  "award_majorities g card_counts spade_counts =
     (let scores = (\<lambda>pid. if pid < length (players g) then Some 0 else None) in
      if total_points g = 11 then
        (case award_most card_counts scores of
           Inl e \<Rightarrow> Inl e
         | Inr scores1 \<Rightarrow> award_most spade_counts scores1)
      else Inr scores)"

definition add_special_scores ::
  "(key \<times> int) list \<Rightarrow> (nat \<rightharpoonup> int) \<Rightarrow> error + (nat \<rightharpoonup> int)" where
  "add_special_scores special_scores scores =
     fold_err (\<lambda>(k, points). add_key_score k points) special_scores scores"

definition calculate_scores :: "game \<Rightarrow> error + (nat \<rightharpoonup> int)" where
  "calculate_scores g =
     (case tally g of
        Inl e \<Rightarrow> Inl e
      | Inr (card_counts, spade_counts, special_scores) \<Rightarrow>
          (case award_majorities g card_counts spade_counts of
             Inl e \<Rightarrow> Inl e
           | Inr scores \<Rightarrow> add_special_scores special_scores scores))"

section \<open>Auxiliary notions for the statements\<close>

text \<open>All combinations of at least \<open>k\<close> elements, in the order the nested loops visit them.\<close>

definition all_combinations :: "'a list \<Rightarrow> nat \<Rightarrow> 'a list list" where
  "all_combinations xs k = concat (map (combinations xs) [k ..< length xs + 1])"


text \<open>A build nobody has created: the content of the unused addresses of the examples.\<close>

definition no_build :: build where
  "no_build = \<lparr>cards = [], total_value = 0, owner = 0, is_augmented = False\<rparr>"

definition new_player :: player where
  "new_player = \<lparr>hand = [], capture_pile = [], last_capture = False\<rparr>"




text \<open>
  A layout with a build of the second player (three of spades and two of hearts, total 5)
  between loose cards; the second player made the last capture.
\<close>

definition capture_game :: game where
  "capture_game =
     \<lparr>deck = [],
      players = [new_player\<lparr>hand := [Card (Pip 8) CLUBS]\<rparr>,
                 new_player\<lparr>hand := [Card (Pip 5) HEARTS],
                            capture_pile := [Card (Pip 6) CLUBS, Card (Pip 6) SPADES],
                            last_capture := True\<rparr>],
      layout = [CardItem (Card (Pip 7) HEARTS), BuildItem 0, CardItem (Card (Pip 2) DIAMONDS),
                CardItem (Card (Pip 9) CLUBS)],
      heap = (\<lambda>r. no_build)(0 := \<lparr>cards = [Card (Pip 3) SPADES, Card (Pip 2) HEARTS],
                                    total_value = 5, owner = 1, is_augmented = False\<rparr>),
      next_ref = 1, partnerships = None\<rparr>"

text \<open>The same position when nobody has captured yet.\<close>

definition no_capture_game :: game where
  "no_capture_game = capture_game\<lparr>players := [new_player, new_player]\<rparr>"

text \<open>
  A stale option: the group of the three of spades and the four of diamonds was found
  while both lay loose; the four has left the layout since.
\<close>

definition stale_game :: game where
  "stale_game =
     \<lparr>deck = [],
      players = [new_player\<lparr>hand := [Card (Pip 9) HEARTS]\<rparr>,
                 new_player\<lparr>capture_pile := [Card (Pip 4) CLUBS, Card (Pip 4) DIAMONDS],
                            last_capture := True\<rparr>],
      layout = [CardItem (Card (Pip 3) SPADES), CardItem (Card (Pip 7) HEARTS)],
      heap = (\<lambda>r. no_build), next_ref = 0, partnerships = None\<rparr>"

definition stale_group :: "item list" where
  "stale_group = [CardItem (Card (Pip 3) SPADES), CardItem (Card (Pip 4) DIAMONDS)]"

text \<open>
  Some target is stale: it is equal to no item of the layout, so \<open>in\<close> is false of it
  and \<open>remove\<close> raises.
\<close>

definition stale :: "(ref \<Rightarrow> build) \<Rightarrow> item list \<Rightarrow> item list \<Rightarrow> bool" where
  "stale h targets lay = (\<exists>x \<in> set targets. item_value h x \<notin> item_value h ` set lay)"

text \<open>Every card of the game, zone by zone: deck, hands, layout (loose cards and the cards of the builds), capture piles.\<close>

definition all_cards :: "game \<Rightarrow> card list" where
  "all_cards g = deck g @ concat (map hand (players g))
     @ concat (map (item_cards (heap g)) (layout g)) @ concat (map capture_pile (players g))"

text \<open>The deck of \<open>_create_deck\<close> before it is shuffled.\<close>

definition create_deck :: "bool \<Rightarrow> card list" where
  "create_deck use_40_card_deck =
     (let suits = [SPADES, HEARTS, DIAMONDS, CLUBS];
          ranks = (if use_40_card_deck
                   then [Pip 2, Pip 3, Pip 4, Pip 5, Pip 6, Pip 7, Pip 8, Pip 9, Pip 10, Ace]
                   else [Pip 2, Pip 3, Pip 4, Pip 5, Pip 6, Pip 7, Pip 8, Pip 9, Pip 10,
                         Jack, Queen, King, Ace])
      in [Card r s. s \<leftarrow> suits, r \<leftarrow> ranks])"

text \<open>Every build of the layout has a \<open>total_value\<close> that its cards can make.\<close>

definition builds_valid :: "game \<Rightarrow> bool" where
  "builds_valid g =
     (\<forall>b \<in> set (get_builds g). total_value (heap g b) \<in> set (calculate_total (cards (heap g b))))"


text \<open>
  A two-player game of the 40-card deck late in the hand. The first player owns the build
  of the three of diamonds and the five of clubs (total 8) and holds the two and the
  eight of spades; the eight of hearts is the top card of the second player's pile.
\<close>

definition the_eight_build :: build where
  "the_eight_build = \<lparr>cards = [Card (Pip 3) DIAMONDS, Card (Pip 5) CLUBS], total_value = 8,
                       owner = 0, is_augmented = False\<rparr>"

definition first_pile :: "card list" where
  "first_pile =
     [Card (Pip 3) SPADES, Card (Pip 3) HEARTS, Card (Pip 4) SPADES, Card (Pip 4) HEARTS,
      Card (Pip 5) SPADES, Card (Pip 5) HEARTS, Card (Pip 6) SPADES, Card (Pip 6) HEARTS,
      Card (Pip 7) SPADES, Card (Pip 7) HEARTS, Card (Pip 10) SPADES, Card (Pip 10) HEARTS,
      Card Ace SPADES, Card Ace HEARTS]"

definition second_pile :: "card list" where
  "second_pile =
     [Card (Pip 9) SPADES, Card (Pip 9) HEARTS, Card (Pip 7) DIAMONDS, Card (Pip 7) CLUBS,
      Card Ace DIAMONDS, Card Ace CLUBS, Card (Pip 6) DIAMONDS, Card (Pip 6) CLUBS,
      Card (Pip 4) CLUBS, Card (Pip 4) DIAMONDS, Card (Pip 2) DIAMONDS, Card (Pip 2) CLUBS,
      Card (Pip 10) CLUBS, Card (Pip 10) DIAMONDS,
      Card (Pip 8) DIAMONDS, Card (Pip 3) CLUBS, Card (Pip 5) DIAMONDS,
      Card (Pip 8) CLUBS, Card (Pip 8) HEARTS]"

definition pile_top_start :: game where
  "pile_top_start =
     \<lparr>deck = [],
      players = [\<lparr>hand = [Card (Pip 2) SPADES, Card (Pip 8) SPADES], capture_pile = first_pile,
                  last_capture = False\<rparr>,
                 \<lparr>hand = [Card (Pip 9) CLUBS, Card (Pip 9) DIAMONDS], capture_pile = second_pile,
                  last_capture = True\<rparr>],
      layout = [BuildItem 0, CardItem (Card (Pip 2) HEARTS)],
      heap = (\<lambda>r. no_build)(0 := the_eight_build),
      next_ref = 1, partnerships = None\<rparr>"

text \<open>The same game once the first player has played the two of spades from the hand.\<close>

definition pile_top_game :: game where
  "pile_top_game =
     pile_top_start\<lparr>players :=
       [\<lparr>hand = [Card (Pip 8) SPADES], capture_pile = first_pile, last_capture = False\<rparr>,
        \<lparr>hand = [Card (Pip 9) CLUBS, Card (Pip 9) DIAMONDS], capture_pile = second_pile,
         last_capture = True\<rparr>]\<rparr>"

text \<open>
  The augmentation with the pile top as \<open>can_augment_build\<close> lists it, and the same
  dictionary with a \<open>type\<close> entry other than \<open>single\<close>, which is what lets
  \<open>execute_build\<close> reach its augmentation branches.
\<close>

definition pile_top_option :: build_config where
  "pile_top_option = augment_config 0 (Card (Pip 2) SPADES) (Card (Pip 8) HEARTS)"

definition pile_top_option_typed :: build_config where
  "pile_top_option_typed = pile_top_option\<lparr>c_type := Some ''augment''\<rparr>"

text \<open>
  The first player owns the build of total 8 and an eight lies loose; the two of spades
  has been played.
\<close>

definition own_build_game :: game where
  "own_build_game =
     \<lparr>deck = [],
      players = [new_player\<lparr>hand := [Card (Pip 8) SPADES]\<rparr>,
                 new_player\<lparr>hand := [Card (Pip 9) CLUBS]\<rparr>],
      layout = [BuildItem 0, CardItem (Card (Pip 8) DIAMONDS)],
      heap = (\<lambda>r. no_build)(0 := the_eight_build),
      next_ref = 1, partnerships = None\<rparr>"

definition own_build_option :: build_config where
  "own_build_option =
     (augment_config 0 (Card (Pip 2) SPADES) (Card (Pip 8) DIAMONDS))\<lparr>c_type := Some ''augment''\<rparr>"

text \<open>The players a key stands for.\<close>

definition key_members :: "key \<Rightarrow> nat list" where
  "key_members k = (case k of PlayerKey pid \<Rightarrow> [pid] | PairKey pids \<Rightarrow> pids)"

text \<open>The scoring unit of a player: the player alone, or the player and the partner.\<close>

definition unit_members :: "game \<Rightarrow> nat \<Rightarrow> nat list" where
  "unit_members g q = (case score_key g q of Inl e \<Rightarrow> [] | Inr k \<Rightarrow> key_members k)"

text \<open>
  The points of one player for special cards: 1 for the two of spades and 2 for the ten
  of diamonds, in the hand or in the capture pile, and 1 for each ace of the capture pile.
\<close>

definition special_points :: "player \<Rightarrow> int" where
  "special_points p =
     (if spy_two \<in> set (hand p) \<or> spy_two \<in> set (capture_pile p) then 1 else 0)
     + (if big_ten \<in> set (hand p) \<or> big_ten \<in> set (capture_pile p) then 2 else 0)
     + int (length (filter (\<lambda>c. rank c = Ace) (capture_pile p)))"

text \<open>What the entries of a counting dictionary give to one player.\<close>

definition weighted :: "(key \<times> int) list \<Rightarrow> nat \<Rightarrow> int" where
  "weighted kvs x = (\<Sum>(k, v)\<leftarrow>kvs. int (count_list (key_members k) x) * v)"

text \<open>
  A game that stops with the two of spades and an ace still in the first player's hand;
  the second player has captured the ten of diamonds and an ace.
\<close>

definition scoring_game :: game where
  "scoring_game =
     \<lparr>deck = [],
      players = [\<lparr>hand = [Card (Pip 2) SPADES, Card Ace HEARTS],
                  capture_pile = [Card (Pip 5) SPADES, Card (Pip 5) HEARTS, Card (Pip 6) SPADES],
                  last_capture = False\<rparr>,
                 \<lparr>hand = [],
                  capture_pile = [Card (Pip 10) DIAMONDS, Card (Pip 10) CLUBS, Card Ace CLUBS,
                                  Card Ace SPADES],
                  last_capture = True\<rparr>],
      layout = [], heap = (\<lambda>r. no_build), next_ref = 0, partnerships = None\<rparr>"

text \<open>
  Scenario A: the seven of hearts, the three of spades and the four of diamonds lie loose,
  as in \<open>test_specific_scenario\<close>.
\<close>

definition scenario_a :: game where
  "scenario_a =
     \<lparr>deck = [],
      players = [new_player\<lparr>hand := [Card (Pip 7) CLUBS, Card Ace HEARTS]\<rparr>, new_player],
      layout = [CardItem (Card (Pip 7) HEARTS), CardItem (Card (Pip 3) SPADES),
                CardItem (Card (Pip 4) DIAMONDS)],
      heap = (\<lambda>r. no_build), next_ref = 0, partnerships = None\<rparr>"

text \<open>No player is named twice in the list of partnerships.\<close>

definition pairs_disjoint :: "(nat \<times> nat) list \<Rightarrow> bool" where
  "pairs_disjoint ps = distinct (concat (map (\<lambda>(a, b). [a, b]) ps))"

text \<open>
  A four-player partnership game, 0 with 2 and 1 with 3. The first player still holds the
  two of spades, the partner has captured the ten of diamonds; the second player has
  captured two aces, the fourth holds an ace.
\<close>

definition partnership_game :: game where
  "partnership_game =
     \<lparr>deck = [],
      players = [\<lparr>hand = [Card (Pip 2) SPADES], capture_pile = [Card (Pip 5) SPADES, Card (Pip 5) HEARTS],
                  last_capture = False\<rparr>,
                 \<lparr>hand = [], capture_pile = [Card Ace CLUBS, Card Ace SPADES, Card (Pip 6) SPADES],
                  last_capture = False\<rparr>,
                 \<lparr>hand = [], capture_pile = [Card (Pip 10) DIAMONDS, Card (Pip 10) CLUBS],
                  last_capture = True\<rparr>,
                 \<lparr>hand = [Card Ace HEARTS], capture_pile = [Card (Pip 9) HEARTS, Card (Pip 9) CLUBS],
                  last_capture = False\<rparr>],
      layout = [], heap = (\<lambda>r. no_build), next_ref = 0,
      partnerships = Some [(0, 2), (1, 3)]\<rparr>"


section \<open>Verification\<close>

subsection \<open>Value resolution\<close>

lemma finite_add_card_totals: "finite S \<Longrightarrow> finite (add_card_totals S c)"
  by (simp add: add_card_totals_def)

lemma finite_foldl_totals: "finite S \<Longrightarrow> finite (foldl add_card_totals S cs)"
  by (induction cs arbitrary: S) (simp_all add: finite_add_card_totals)

lemma set_calculate_total: "set (calculate_total cs) = foldl add_card_totals {0} cs"
  by (simp add: calculate_total_def finite_foldl_totals)

lemma foldl_totals_sums:
  "foldl add_card_totals S cs =
     (\<Union>s\<in>S. (\<lambda>vs. s + sum_list vs) ` set (product_lists (map card_values cs)))"
proof (induction cs arbitrary: S)
  case Nil
  then show ?case by simp
next
  case (Cons c cs)
  show ?case
    unfolding foldl_Cons Cons.IH
    by (auto simp: add_card_totals_def image_iff add.assoc) blast+
qed

lemma set_calculate_total_sums:
  "set (calculate_total cs) = sum_list ` set (product_lists (map card_values cs))"
  by (simp add: set_calculate_total foldl_totals_sums)


lemma sorted_one_ace: "sorted_list_of_set {1, 14 :: int} = [1, 14]"
  by code_simp

lemma sorted_two_aces: "sorted_list_of_set {2, 15, 28 :: int} = [2, 15, 28]"
  by code_simp

lemma one_ace: "calculate_total [Card Ace s] = [1, 14]"
proof -
  have "foldl add_card_totals {0} [Card Ace s] = {1, 14}"
    by (auto simp: add_card_totals_def card_values_def)
  then show ?thesis by (simp only: calculate_total_def sorted_one_ace)
qed

lemma two_aces: "calculate_total [Card Ace s1, Card Ace s2] = [2, 15, 28]"
proof -
  have "foldl add_card_totals {0} [Card Ace s1, Card Ace s2] = {2, 15, 28}"
    by (auto simp: add_card_totals_def card_values_def)
  then show ?thesis by (simp only: calculate_total_def sorted_two_aces)
qed

text \<open>
  Claim C6 (value resolution). For every sequence of cards, the totals that
  \<open>calculate_total\<close> returns are exactly the sums of one value chosen from the
  \<open>values\<close> of each card (\<open>product_lists\<close> lists every such choice, one value for
  every card of the sequence); no cards give the single total 0, one ace gives 1 and 14,
  two aces give 2, 15 and 28.
\<close>

theorem calculate_total_sums:
  "set (calculate_total cs) = sum_list ` set (product_lists (map card_values cs))
   \<and> calculate_total [] = [0]
   \<and> calculate_total [Card Ace s] = [1, 14]
   \<and> calculate_total [Card Ace s1, Card Ace s2] = [2, 15, 28]"
  using set_calculate_total_sums one_ace two_aces by (simp add: calculate_total_def)


subsection \<open>Combinations\<close>

lemma length_subseqs_le: "ys \<in> set (subseqs xs) \<Longrightarrow> length ys \<le> length xs"
  by (induction xs arbitrary: ys) (force simp: Let_def)+

lemma mset_combinations:
  "mset (combinations xs r) = filter_mset (\<lambda>ys. length ys = r) (mset (subseqs xs))"
proof (induction xs r rule: combinations.induct)
  case (1 xs)
  show ?case
  proof (induction xs)
    case Nil
    show ?case by simp
  next
    case (Cons x xs)
    have "filter_mset (\<lambda>ys. length ys = 0) (image_mset ((#) x) (mset (subseqs xs))) = {#}"
      by (rule multiset_eqI) (auto simp: count_image_mset intro: sum.neutral)
    with Cons show ?case by (simp add: Let_def)
  qed
next
  case (2 r)
  show ?case by simp
next
  case (3 x xs r)
  have "filter_mset (\<lambda>ys. length ys = Suc r) (image_mset ((#) x) (mset (subseqs xs)))
        = image_mset ((#) x) (filter_mset (\<lambda>ys. length ys = r) (mset (subseqs xs)))"
    by (simp add: filter_mset_image_mset comp_def)
  with 3 show ?case by (simp add: Let_def)
qed

lemma set_combinations:
  "set (combinations xs r) = {ys \<in> set (subseqs xs). length ys = r}"
proof -
  have "set (combinations xs r) = set_mset (mset (combinations xs r))" by simp
  also have "\<dots> = {ys \<in> set (subseqs xs). length ys = r}"
    unfolding mset_combinations by auto
  finally show ?thesis .
qed

lemma sum_filter_length:
  "(\<Sum>r\<leftarrow>[a ..< b]. filter_mset (\<lambda>ys. f ys = r) M) = filter_mset (\<lambda>ys. a \<le> f ys \<and> f ys < b) M"
proof (induction b)
  case 0
  show ?case by simp
next
  case (Suc b)
  show ?case
  proof (cases "a \<le> b")
    case True
    have "filter_mset (\<lambda>ys. a \<le> f ys \<and> f ys < Suc b) M =
          filter_mset (\<lambda>ys. a \<le> f ys \<and> f ys < b) M + filter_mset (\<lambda>ys. f ys = b) M"
      using True by (intro multiset_eqI) auto
    with True Suc show ?thesis by simp
  next
    case False
    then have "\<And>ys. \<not> (a \<le> f ys \<and> f ys < Suc b)" by auto
    with False show ?thesis by simp
  qed
qed

lemma mset_all_combinations:
  "mset (all_combinations xs k) = filter_mset (\<lambda>ys. k \<le> length ys) (mset (subseqs xs))"
proof -
  have "mset (all_combinations xs k) = (\<Sum>r\<leftarrow>[k ..< length xs + 1]. mset (combinations xs r))"
    by (simp add: all_combinations_def mset_concat comp_def)
  also have "\<dots> = filter_mset (\<lambda>ys. k \<le> length ys \<and> length ys < length xs + 1) (mset (subseqs xs))"
    by (simp only: mset_combinations sum_filter_length)
  also have "\<dots> = filter_mset (\<lambda>ys. k \<le> length ys) (mset (subseqs xs))"
    by (rule filter_mset_cong) (auto dest: length_subseqs_le simp: less_Suc_eq_le)
  finally show ?thesis .
qed

lemma set_all_combinations:
  "set (all_combinations xs k) = {ys \<in> set (subseqs xs). k \<le> length ys}"
proof -
  have "set (all_combinations xs k) = set_mset (mset (all_combinations xs k))" by simp
  also have "\<dots> = {ys \<in> set (subseqs xs). k \<le> length ys}"
    unfolding mset_all_combinations by auto
  finally show ?thesis .
qed

lemma concat_comprehension:
  "concat (map (\<lambda>r. map f (X r)) rs) = map f (concat (map X rs))"
  by (induction rs) simp_all

lemma concat_map_if:
  "concat (map (\<lambda>x. if P x then [f x] else []) xs) = map f (filter P xs)"
  by (induction xs) simp_all


subsection \<open>Capture enumeration\<close>

lemma set_loose_cards: "set (loose_cards xs) = {c. CardItem c \<in> set xs}"
  by (induction xs rule: loose_cards.induct) auto

lemma set_build_refs: "set (build_refs xs) = {b. BuildItem b \<in> set xs}"
  by (induction xs rule: build_refs.induct) auto

lemma combinations_one: "combinations xs (Suc 0) = map (\<lambda>x. [x]) xs"
  by (induction xs) simp_all

lemma concat_map_filter:
  "concat (map (\<lambda>r. concat (map (\<lambda>x. if P x then [f x] else []) (X r))) rs)
     = map f (filter P (concat (map X rs)))"
  by (induction rs) (simp_all add: concat_map_if)

lemma find_captures_multi:
  "[map CardItem combo. r \<leftarrow> [2 ..< length loose + 1], combo \<leftarrow> combinations loose r, P combo]
     = map (map CardItem) (filter P (all_combinations loose 2))"
  unfolding all_combinations_def by (simp only: concat_map_filter)


lemma set_find_captures:
  "set (find_captures g played_card player) =
     {[CardItem c] | c. c \<in> set (get_loose_cards g) \<and> numeric_value c = numeric_value played_card}
   \<union> {[BuildItem b] | b. b \<in> set (get_builds g) \<and> total_value (heap g b) = numeric_value played_card}
   \<union> {map CardItem cs | cs. cs \<in> set (subseqs (get_loose_cards g)) \<and> 2 \<le> length cs
         \<and> numeric_value played_card \<in> set (calculate_total cs)}
   \<union> {[CardItem c, BuildItem b] | c b. b \<in> set (get_builds g) \<and> c \<in> set (get_loose_cards g)
         \<and> numeric_value played_card \<in> (\<lambda>t. t + total_value (heap g b)) ` set (calculate_total [c])}"
  (is "?L = ?A \<union> ?B \<union> ?C \<union> ?D")
proof -
  let ?loose = "get_loose_cards g"
  let ?nv = "numeric_value played_card"
  have singles: "set [[target]. target \<leftarrow> map CardItem ?loose @ map BuildItem (get_builds g),
                       single_match g played_card target] = ?A \<union> ?B"
    by (auto simp: single_match_def)
  have multi: "set [map CardItem combo. r \<leftarrow> [2 ..< length ?loose + 1], combo \<leftarrow> combinations ?loose r,
                       ?nv \<in> set (calculate_total combo)] = ?C"
    unfolding find_captures_multi by (auto simp: set_all_combinations)
  have withb: "set [map CardItem combo @ [BuildItem b]. b \<leftarrow> get_builds g, combo \<leftarrow> combinations ?loose 1,
                       ?nv \<in> set (map (\<lambda>t. t + total_value (heap g b)) (calculate_total combo))] = ?D"
    by (auto simp: combinations_one)
  show ?thesis
    unfolding find_captures_def Let_def set_append singles multi withb
    by (simp only: Un_assoc)
qed

lemma map_CardItem_eq_Cons:
  "map CardItem cs = CardItem c # ys \<longleftrightarrow> (\<exists>cs'. cs = c # cs' \<and> ys = map CardItem cs')"
  by (cases cs) auto

lemma subseqs_loose_cards:
  "cs \<in> set (subseqs (loose_cards xs)) \<longleftrightarrow> map CardItem cs \<in> set (subseqs xs)"
proof (induction xs arbitrary: cs rule: loose_cards.induct)
  case 1
  show ?case by simp
next
  case (2 c xs)
  show ?case
  proof (cases cs)
    case Nil
    with 2[of "[]"] show ?thesis by (auto simp: Let_def)
  next
    case (Cons d ds)
    with 2[of ds] 2[of "d # ds"] show ?thesis by (auto simp: Let_def)
  qed
next
  case (3 r xs)
  with 3[of cs] show ?case by (cases cs) (auto simp: Let_def)
qed

lemma set_find_captures_layout:
  "set (find_captures g played_card player) =
     {[CardItem c] | c. CardItem c \<in> set (layout g) \<and> numeric_value c = numeric_value played_card}
   \<union> {[BuildItem b] | b. BuildItem b \<in> set (layout g)
         \<and> total_value (heap g b) = numeric_value played_card}
   \<union> {map CardItem cs | cs. map CardItem cs \<in> set (subseqs (layout g)) \<and> 2 \<le> length cs
         \<and> numeric_value played_card \<in> set (calculate_total cs)}
   \<union> {[CardItem c, BuildItem b] | c b. BuildItem b \<in> set (layout g) \<and> CardItem c \<in> set (layout g)
         \<and> numeric_value played_card \<in> (\<lambda>t. t + total_value (heap g b)) ` set (calculate_total [c])}"
  unfolding set_find_captures
  by (simp add: get_loose_cards_def get_builds_def set_loose_cards set_build_refs subseqs_loose_cards)

lemma scenario_a_captures:
  "find_captures scenario_a (Card (Pip 7) CLUBS) 0
     = [[CardItem (Card (Pip 7) HEARTS)],
        [CardItem (Card (Pip 3) SPADES), CardItem (Card (Pip 4) DIAMONDS)]]"
  by code_simp

lemma capture_game_captures:
  "find_captures capture_game (Card (Pip 7) CLUBS) 0
     = [[CardItem (Card (Pip 7) HEARTS)],
        [CardItem (Card (Pip 2) DIAMONDS), BuildItem 0]]"
  by code_simp

lemma capture_game_build_capture:
  "find_captures capture_game (Card (Pip 5) HEARTS) 1 = [[BuildItem 0]]"
  by code_simp

text \<open>
  Claim C3 (capture enumeration). For any played card and any layout, the groups
  \<open>find_captures\<close> returns are exactly: each loose card of the layout whose
  \<open>numeric_value\<close> is that of the played card; each build of the layout, of any owner,
  whose \<open>total_value\<close> is that value; each choice of two or more loose cards of the
  layout (a sublist of the layout made of cards only) whose \<open>calculate_total\<close> contains
  that value; and each pair of one loose card and one build of the layout for which a
  total of the card plus the \<open>total_value\<close> of the build is that value. No other group
  is returned, so none joins a build with two loose cards or with another build. In
  scenario A the seven of clubs finds the seven of hearts and the three with the four;
  with a build of total 5 between loose cards, the seven finds the seven of hearts and the
  loose two with the build, and a five finds the build alone.
\<close>

theorem find_captures_groups:
  "set (find_captures g played_card player) =
     {[CardItem c] | c. CardItem c \<in> set (layout g) \<and> numeric_value c = numeric_value played_card}
   \<union> {[BuildItem b] | b. BuildItem b \<in> set (layout g)
         \<and> total_value (heap g b) = numeric_value played_card}
   \<union> {map CardItem cs | cs. map CardItem cs \<in> set (subseqs (layout g)) \<and> 2 \<le> length cs
         \<and> numeric_value played_card \<in> set (calculate_total cs)}
   \<union> {[CardItem c, BuildItem b] | c b. BuildItem b \<in> set (layout g) \<and> CardItem c \<in> set (layout g)
         \<and> numeric_value played_card \<in> (\<lambda>t. t + total_value (heap g b)) ` set (calculate_total [c])}
   \<and> find_captures scenario_a (Card (Pip 7) CLUBS) 0
       = [[CardItem (Card (Pip 7) HEARTS)],
          [CardItem (Card (Pip 3) SPADES), CardItem (Card (Pip 4) DIAMONDS)]]
   \<and> find_captures capture_game (Card (Pip 7) CLUBS) 0
       = [[CardItem (Card (Pip 7) HEARTS)],
          [CardItem (Card (Pip 2) DIAMONDS), BuildItem 0]]
   \<and> find_captures capture_game (Card (Pip 5) HEARTS) 1 = [[BuildItem 0]]"
  using set_find_captures_layout scenario_a_captures capture_game_captures
    capture_game_build_capture
  by (intro conjI)

subsection \<open>Build creation\<close>












subsection \<open>Order of the totals\<close>








subsection \<open>Capture execution\<close>

lemma list_remove_present:
  assumes "distinct (map (item_value h) lay)" "x \<in> set lay"
  shows "list_remove h x lay = Some (remove1 x lay)"
  using assms
proof (induction lay)
  case Nil
  then show ?case by simp
next
  case (Cons y ys)
  show ?case
  proof (cases "item_value h y = item_value h x")
    case True
    with Cons.prems have "y = x" by (auto simp: image_iff)
    with True show ?thesis by simp
  next
    case False
    then have "y \<noteq> x" by auto
    with False Cons show ?thesis by simp
  qed
qed

lemma list_remove_absent:
  "item_value h x \<notin> item_value h ` set lay \<Longrightarrow> list_remove h x lay = None"
  by (induction lay) auto

lemma list_remove_None_iff:
  "list_remove h x lay = None \<longleftrightarrow> item_value h x \<notin> item_value h ` set lay"
  by (induction lay) auto

lemma distinct_map_remove1: "distinct (map f xs) \<Longrightarrow> distinct (map f (remove1 x xs))"
  by (induction xs) (auto simp: image_iff dest: notin_set_remove1)

lemma distinct_map_imp_distinct: "distinct (map f xs) \<Longrightarrow> distinct xs"
  by (simp add: distinct_map)

lemma remove_captured_present:
  assumes "distinct (map (item_value h) lay)" "distinct grp" "set grp \<subseteq> set lay"
  shows "remove_captured h grp lay acc =
           (None, filter (\<lambda>y. y \<notin> set grp) lay, acc @ concat (map (item_cards h) grp))"
  using assms
proof (induction grp arbitrary: lay acc)
  case Nil
  then show ?case by simp
next
  case (Cons x xs)
  have dl: "distinct lay" using Cons.prems(1) by (rule distinct_map_imp_distinct)
  have rm: "list_remove h x lay = Some (remove1 x lay)"
    using Cons.prems by (intro list_remove_present) auto
  have d': "distinct (map (item_value h) (remove1 x lay))"
    using Cons.prems(1) by (rule distinct_map_remove1)
  have sub: "set xs \<subseteq> set (remove1 x lay)"
    using Cons.prems(2,3) dl by auto
  have "filter (\<lambda>y. y \<notin> set xs) (remove1 x lay) = filter (\<lambda>y. y \<notin> set (x # xs)) lay"
    using dl by (auto simp: distinct_remove1_removeAll removeAll_filter_not_eq intro: filter_cong)
  with Cons.IH[OF d' _ sub, of "acc @ item_cards h x"] Cons.prems(2) rm
  show ?case by simp
qed

lemma distinct_loose_cards: "distinct xs \<Longrightarrow> distinct (loose_cards xs)"
  by (induction xs rule: loose_cards.induct) (auto simp: set_loose_cards)

text \<open>
  In a layout without repeated items, every group that \<open>find_captures\<close> returns is
  non-empty, made of items of the layout, and names no item twice.
\<close>

lemma find_captures_present:
  assumes "distinct (layout g)" and "grp \<in> set (find_captures g played_card player)"
  shows "grp \<noteq> [] \<and> set grp \<subseteq> set (layout g) \<and> distinct grp"
proof -
  have dl: "distinct (get_loose_cards g)"
    using assms(1) by (simp add: get_loose_cards_def distinct_loose_cards)
  have sub: "\<And>cs. cs \<in> set (subseqs (get_loose_cards g)) \<Longrightarrow>
               CardItem ` set cs \<subseteq> set (layout g) \<and> distinct (map CardItem cs)"
  proof -
    fix cs assume cs: "cs \<in> set (subseqs (get_loose_cards g))"
    then have "distinct cs" using dl by (rule subseqs_distinctD)
    moreover have "set cs \<subseteq> set (get_loose_cards g)"
      using cs subseqs_powset[of "get_loose_cards g"] by (metis PowD imageI)
    ultimately show "CardItem ` set cs \<subseteq> set (layout g) \<and> distinct (map CardItem cs)"
      by (auto simp: get_loose_cards_def set_loose_cards distinct_map inj_on_def)
  qed
  from assms(2) consider
      c where "grp = [CardItem c]" "c \<in> set (get_loose_cards g)"
    | b where "grp = [BuildItem b]" "b \<in> set (get_builds g)"
    | cs where "grp = map CardItem cs" "cs \<in> set (subseqs (get_loose_cards g))" "2 \<le> length cs"
    | c b where "grp = [CardItem c, BuildItem b]" "b \<in> set (get_builds g)"
        "c \<in> set (get_loose_cards g)"
    unfolding set_find_captures by blast
  then show ?thesis
  proof cases
    case 1
    then show ?thesis by (simp add: get_loose_cards_def set_loose_cards)
  next
    case 2
    then show ?thesis by (simp add: get_builds_def set_build_refs)
  next
    case 3
    with sub[OF 3(2)] show ?thesis by auto
  next
    case 4
    then show ?thesis
      by (simp add: get_loose_cards_def set_loose_cards get_builds_def set_build_refs)
  qed
qed

text \<open>
  Claim C4 (capture execution). The layout of a game holds each card and each build
  once, and a capture group is a set of layout items: the layout has no two equal items
  and the group names no item twice. If every item of a non-empty group is in the layout,
  \<open>execute_capture\<close> returns \<open>True\<close>; afterwards no item of the group is in the layout,
  the other layout items are as before and in the same order, no build has changed, the
  capture pile of the acting player has gained the played card followed by the captured
  cards (a build gives all its cards) in the order of the group, that player's
  \<open>last_capture\<close> is set and every other player's is cleared, with pile and hand as before.
\<close>

theorem execute_capture_postcondition:
  assumes "capture_group \<noteq> []"
    and "set capture_group \<subseteq> set (layout g)"
    and "distinct capture_group"
    and "distinct (map (item_value (heap g)) (layout g))"
    and "player < length (players g)"
  shows "\<exists>g'. execute_capture g player played_card capture_group = (Returned True, g')
      \<and> (\<forall>x \<in> set capture_group. item_value (heap g') x \<notin> item_value (heap g') ` set (layout g'))
      \<and> layout g' = filter (\<lambda>y. y \<notin> set capture_group) (layout g)
      \<and> heap g' = heap g \<and> deck g' = deck g
      \<and> length (players g') = length (players g)
      \<and> capture_pile (players g' ! player) =
           capture_pile (players g ! player) @ [played_card]
             @ concat (map (item_cards (heap g)) capture_group)
      \<and> hand (players g' ! player) = hand (players g ! player)
      \<and> last_capture (players g' ! player)
      \<and> (\<forall>i < length (players g). i \<noteq> player \<longrightarrow>
            \<not> last_capture (players g' ! i)
            \<and> capture_pile (players g' ! i) = capture_pile (players g ! i)
            \<and> hand (players g' ! i) = hand (players g ! i))"
proof -
  let ?h = "heap g"
  let ?lay = "filter (\<lambda>y. y \<notin> set capture_group) (layout g)"
  let ?all = "[played_card] @ concat (map (item_cards ?h) capture_group)"
  let ?ps = "mark_last_capture ((players g)[player := capture_cards (players g ! player) ?all]) player"
  let ?g' = "g\<lparr>players := ?ps, layout := ?lay\<rparr>"
  have rc: "remove_captured ?h capture_group (layout g) [] =
              (None, ?lay, concat (map (item_cards ?h) capture_group))"
    using remove_captured_present[OF assms(4,3,2), of "[]"] by simp
  have ex: "execute_capture g player played_card capture_group = (Returned True, ?g')"
    using assms(1) by (simp add: execute_capture_def rc)
  have inj: "inj_on (item_value ?h) (set (layout g))"
    using assms(4) by (simp add: distinct_map)
  have absent: "\<forall>x \<in> set capture_group. item_value ?h x \<notin> item_value ?h ` set ?lay"
  proof
    fix x assume x: "x \<in> set capture_group"
    show "item_value ?h x \<notin> item_value ?h ` set ?lay"
    proof
      assume "item_value ?h x \<in> item_value ?h ` set ?lay"
      then obtain y where y: "y \<in> set (layout g)" "y \<notin> set capture_group"
        "item_value ?h x = item_value ?h y" by auto
      from x assms(2) have "x \<in> set (layout g)" by auto
      with inj y have "x = y" by (auto dest: inj_onD)
      with x y(2) show False by simp
    qed
  qed
  have me: "capture_pile (?ps ! player) = capture_pile (players g ! player) @ ?all"
      "hand (?ps ! player) = hand (players g ! player)" "last_capture (?ps ! player)"
    using assms(5) by (simp_all add: mark_last_capture_def capture_cards_def)
  have others: "\<forall>i < length (players g). i \<noteq> player \<longrightarrow>
            \<not> last_capture (?ps ! i)
            \<and> capture_pile (?ps ! i) = capture_pile (players g ! i)
            \<and> hand (?ps ! i) = hand (players g ! i)"
    by (simp add: mark_last_capture_def)
  have len: "length ?ps = length (players g)" by (simp add: mark_last_capture_def)
  show ?thesis
    apply (rule exI[of _ ?g'])
    using ex absent me others len by simp
qed



text \<open>
  The seven of clubs captures the loose two and the build of total 5: the seven of hearts
  and the nine stay, the pile gains the four cards in order, and the flag moves from the
  second player to the first.
\<close>

theorem execute_capture_postcondition_witness:
  "\<exists>g'. execute_capture capture_game 0 (Card (Pip 7) CLUBS)
            [CardItem (Card (Pip 2) DIAMONDS), BuildItem 0] = (Returned True, g')
      \<and> layout g' = [CardItem (Card (Pip 7) HEARTS), CardItem (Card (Pip 9) CLUBS)]
      \<and> capture_pile (players g' ! 0) =
           [Card (Pip 7) CLUBS, Card (Pip 2) DIAMONDS, Card (Pip 3) SPADES, Card (Pip 2) HEARTS]
      \<and> last_capture (players g' ! 0)
      \<and> \<not> last_capture (players g' ! 1)
      \<and> capture_pile (players g' ! 1) = [Card (Pip 6) CLUBS, Card (Pip 6) SPADES]"
proof -
  have d: "distinct (map (item_value (heap capture_game)) (layout capture_game))"
    by (simp add: capture_game_def item_value_def)
  have "\<exists>g'. execute_capture capture_game 0 (Card (Pip 7) CLUBS)
            [CardItem (Card (Pip 2) DIAMONDS), BuildItem 0] = (Returned True, g')
      \<and> (\<forall>x \<in> set [CardItem (Card (Pip 2) DIAMONDS), BuildItem 0].
            item_value (heap g') x \<notin> item_value (heap g') ` set (layout g'))
      \<and> layout g' = filter (\<lambda>y. y \<notin> set [CardItem (Card (Pip 2) DIAMONDS), BuildItem 0]) (layout capture_game)
      \<and> heap g' = heap capture_game \<and> deck g' = deck capture_game
      \<and> length (players g') = length (players capture_game)
      \<and> capture_pile (players g' ! 0) =
           capture_pile (players capture_game ! 0) @ [Card (Pip 7) CLUBS]
             @ concat (map (item_cards (heap capture_game)) [CardItem (Card (Pip 2) DIAMONDS), BuildItem 0])
      \<and> hand (players g' ! 0) = hand (players capture_game ! 0)
      \<and> last_capture (players g' ! 0)
      \<and> (\<forall>i < length (players capture_game). i \<noteq> 0 \<longrightarrow>
            \<not> last_capture (players g' ! i)
            \<and> capture_pile (players g' ! i) = capture_pile (players capture_game ! i)
            \<and> hand (players g' ! i) = hand (players capture_game ! i))"
    by (rule execute_capture_postcondition [OF _ _ _ d])
       (simp_all add: capture_game_def)
  then obtain g' where g':
    "execute_capture capture_game 0 (Card (Pip 7) CLUBS)
            [CardItem (Card (Pip 2) DIAMONDS), BuildItem 0] = (Returned True, g')"
    "layout g' = filter (\<lambda>y. y \<notin> set [CardItem (Card (Pip 2) DIAMONDS), BuildItem 0]) (layout capture_game)"
    "capture_pile (players g' ! 0) =
           capture_pile (players capture_game ! 0) @ [Card (Pip 7) CLUBS]
             @ concat (map (item_cards (heap capture_game)) [CardItem (Card (Pip 2) DIAMONDS), BuildItem 0])"
    "last_capture (players g' ! 0)"
    "\<forall>i < length (players capture_game). i \<noteq> 0 \<longrightarrow>
            \<not> last_capture (players g' ! i)
            \<and> capture_pile (players g' ! i) = capture_pile (players capture_game ! i)
            \<and> hand (players g' ! i) = hand (players capture_game ! i)"
    by blast
  from g'(5) have "\<not> last_capture (players g' ! 1)
      \<and> capture_pile (players g' ! 1) = capture_pile (players capture_game ! 1)"
    by (simp add: capture_game_def)
  with g'(1-4) show ?thesis
    by (simp add: capture_game_def item_cards_def new_player_def)
qed


subsection \<open>End of hand\<close>

lemma find_last_capturer_None:
  "find_last_capturer ps = None \<longleftrightarrow> (\<forall>p \<in> set ps. \<not> last_capture p)"
  by (induction ps) auto

lemma find_last_capturer_Some:
  "find_last_capturer ps = Some i \<Longrightarrow>
     i < length ps \<and> last_capture (ps ! i) \<and> (\<forall>j < i. \<not> last_capture (ps ! j))"
proof (induction ps arbitrary: i)
  case Nil
  then show ?case by simp
next
  case (Cons p ps)
  show ?case
  proof (cases "last_capture p")
    case True
    with Cons.prems show ?thesis by simp
  next
    case False
    with Cons.prems obtain k where k: "find_last_capturer ps = Some k" "i = Suc k" by auto
    from Cons.IH[OF k(1)] False k(2) show ?thesis
      by (auto simp: less_Suc_eq_0_disj)
  qed
qed

text \<open>
  Claim C8 (end of hand). If some player has \<open>last_capture\<close> set, the first such player
  (there is at most one while \<open>execute_capture\<close> alone sets the flag) gains every loose
  card and every card of every build of the layout, in layout order, on the capture pile,
  the other players are unchanged and the layout is empty afterwards. If no player has
  it set, \<open>end_of_hand_cleanup\<close> changes nothing: no pile changes. Both hold whatever
  the hands contain, in particular when all hands are empty.
\<close>

theorem end_of_hand_remainder:
  "((\<exists>p \<in> set (players g). last_capture p) \<longrightarrow>
      (\<exists>i < length (players g).
          last_capture (players g ! i) \<and> (\<forall>j < i. \<not> last_capture (players g ! j))
        \<and> capture_pile (players (end_of_hand_cleanup g) ! i) =
            capture_pile (players g ! i) @ concat (map (item_cards (heap g)) (layout g))
        \<and> hand (players (end_of_hand_cleanup g) ! i) = hand (players g ! i)
        \<and> (\<forall>j < length (players g). j \<noteq> i \<longrightarrow>
              players (end_of_hand_cleanup g) ! j = players g ! j)
        \<and> length (players (end_of_hand_cleanup g)) = length (players g)
        \<and> layout (end_of_hand_cleanup g) = []))
   \<and> ((\<forall>p \<in> set (players g). \<not> last_capture p) \<longrightarrow> end_of_hand_cleanup g = g)"
proof (intro conjI impI)
  assume "\<exists>p \<in> set (players g). last_capture p"
  then obtain i where i: "find_last_capturer (players g) = Some i"
    using find_last_capturer_None[of "players g"] by (cases "find_last_capturer (players g)") auto
  note fi = find_last_capturer_Some[OF i]
  let ?rem = "concat (map (item_cards (heap g)) (layout g))"
  show "\<exists>i < length (players g).
          last_capture (players g ! i) \<and> (\<forall>j < i. \<not> last_capture (players g ! j))
        \<and> capture_pile (players (end_of_hand_cleanup g) ! i) =
            capture_pile (players g ! i) @ ?rem
        \<and> hand (players (end_of_hand_cleanup g) ! i) = hand (players g ! i)
        \<and> (\<forall>j < length (players g). j \<noteq> i \<longrightarrow>
              players (end_of_hand_cleanup g) ! j = players g ! j)
        \<and> length (players (end_of_hand_cleanup g)) = length (players g)
        \<and> layout (end_of_hand_cleanup g) = []"
  proof (intro exI[of _ i] conjI)
    show "i < length (players g)" "last_capture (players g ! i)"
      "\<forall>j < i. \<not> last_capture (players g ! j)" using fi by simp_all
    show "capture_pile (players (end_of_hand_cleanup g) ! i) = capture_pile (players g ! i) @ ?rem"
      using fi i by (simp add: end_of_hand_cleanup_def Let_def capture_cards_def)
    show "hand (players (end_of_hand_cleanup g) ! i) = hand (players g ! i)"
      using fi i by (simp add: end_of_hand_cleanup_def Let_def capture_cards_def)
    show "\<forall>j < length (players g). j \<noteq> i \<longrightarrow> players (end_of_hand_cleanup g) ! j = players g ! j"
      using i by (simp add: end_of_hand_cleanup_def Let_def)
    show "length (players (end_of_hand_cleanup g)) = length (players g)"
      using i by (simp add: end_of_hand_cleanup_def Let_def)
    show "layout (end_of_hand_cleanup g) = []"
      using i by (simp add: end_of_hand_cleanup_def Let_def)
  qed
next
  assume "\<forall>p \<in> set (players g). \<not> last_capture p"
  then have "find_last_capturer (players g) = None" by (simp add: find_last_capturer_None)
  then show "end_of_hand_cleanup g = g" by (simp add: end_of_hand_cleanup_def)
qed

text \<open>
  The second player, who captured last, takes the five remaining cards; when nobody has
  captured the game stays as it is.
\<close>

theorem end_of_hand_remainder_witness:
  "capture_pile (players (end_of_hand_cleanup capture_game) ! 1) =
      [Card (Pip 6) CLUBS, Card (Pip 6) SPADES,
       Card (Pip 7) HEARTS, Card (Pip 3) SPADES, Card (Pip 2) HEARTS, Card (Pip 2) DIAMONDS,
       Card (Pip 9) CLUBS]
   \<and> players (end_of_hand_cleanup capture_game) ! 0 = players capture_game ! 0
   \<and> layout (end_of_hand_cleanup capture_game) = []
   \<and> end_of_hand_cleanup no_capture_game = no_capture_game"
proof -
  have a: "\<exists>p \<in> set (players capture_game). last_capture p"
    by (simp add: capture_game_def new_player_def)
  have b: "\<forall>p \<in> set (players no_capture_game). \<not> last_capture p"
    by (simp add: no_capture_game_def new_player_def)
  from end_of_hand_remainder [of capture_game] a
  obtain i where i: "i < length (players capture_game)" "last_capture (players capture_game ! i)"
    "capture_pile (players (end_of_hand_cleanup capture_game) ! i) =
       capture_pile (players capture_game ! i)
         @ concat (map (item_cards (heap capture_game)) (layout capture_game))"
    "\<forall>j < length (players capture_game). j \<noteq> i \<longrightarrow>
        players (end_of_hand_cleanup capture_game) ! j = players capture_game ! j"
    "layout (end_of_hand_cleanup capture_game) = []"
    by blast
  from i(1,2) have i1: "i = 1"
    by (cases "i = 0") (auto simp: capture_game_def new_player_def less_Suc_eq)
  have c: "end_of_hand_cleanup no_capture_game = no_capture_game"
    using end_of_hand_remainder [of no_capture_game] b by blast
  from i(3,4,5) c show ?thesis
    unfolding i1 by (simp add: capture_game_def item_cards_def new_player_def)
qed


subsection \<open>Stale options\<close>

lemma list_remove_Some:
  "list_remove h x lay = Some lay' \<Longrightarrow>
     image_mset (item_value h) (mset lay) = image_mset (item_value h) (mset lay') + {#item_value h x#}
     \<and> set lay' \<subseteq> set lay"
proof (induction lay arbitrary: lay')
  case Nil
  then show ?case by simp
next
  case (Cons y ys)
  show ?case
  proof (cases "item_value h y = item_value h x")
    case True
    with Cons.prems show ?thesis by auto
  next
    case False
    with Cons.prems obtain zs where zs: "list_remove h x ys = Some zs" "lay' = y # zs" by auto
    from Cons.IH[OF zs(1)] zs(2) show ?thesis by auto
  qed
qed

lemma remove_captured_stale:
  assumes "\<exists>x \<in> set grp. item_value h x \<notin> item_value h ` set lay"
  shows "\<exists>k lay' acc'. k < length grp
           \<and> remove_captured h grp lay acc = (Some ValueError, lay', acc')
           \<and> image_mset (item_value h) (mset lay) =
               image_mset (item_value h) (mset lay') + image_mset (item_value h) (mset (take k grp))
           \<and> item_value h (grp ! k) \<notin> item_value h ` set lay'
           \<and> (k = 0 \<longrightarrow> lay' = lay)"
  using assms
proof (induction grp arbitrary: lay acc)
  case Nil
  then show ?case by simp
next
  case (Cons x xs)
  show ?case
  proof (cases "list_remove h x lay")
    case None
    then have "item_value h x \<notin> item_value h ` set lay" by (simp add: list_remove_None_iff)
    with None show ?thesis by (intro exI[of _ 0] exI[of _ lay]) simp
  next
    case (Some lay1)
    note rm = list_remove_Some[OF Some]
    from Some have "item_value h x \<in> item_value h ` set lay"
      using list_remove_None_iff[of h x lay] by auto
    with Cons.prems obtain y where y: "y \<in> set xs" "item_value h y \<notin> item_value h ` set lay" by auto
    with rm have "\<exists>y \<in> set xs. item_value h y \<notin> item_value h ` set lay1" by blast
    from Cons.IH[OF this, of "acc @ item_cards h x"] obtain k lay' acc' where
      k: "k < length xs"
         "remove_captured h xs lay1 (acc @ item_cards h x) = (Some ValueError, lay', acc')"
         "image_mset (item_value h) (mset lay1) =
               image_mset (item_value h) (mset lay') + image_mset (item_value h) (mset (take k xs))"
         "item_value h (xs ! k) \<notin> item_value h ` set lay'"
      by blast
    show ?thesis
      using k rm Some by (intro exI[of _ "Suc k"] exI[of _ lay'] exI[of _ acc']) simp
  qed
qed

lemma remove_used_captured:
  "remove_used h cs lay =
     (fst (remove_captured h (map CardItem cs) lay acc),
      fst (snd (remove_captured h (map CardItem cs) lay acc)))"
  by (induction cs arbitrary: lay acc) (auto split: option.splits)

text \<open>
  Claim C7 (stale options), as the code has it. When an item of a chosen capture group is
  equal to no item of the layout, \<open>execute_capture\<close> raises ValueError; when a card of a
  build-creation configuration is not loose in the layout, \<open>execute_build\<close> raises
  ValueError. In both cases nothing but the layout has changed (capture piles,
  \<open>last_capture\<close> flags, builds and hands are as before, no build was added and the
  played card was not discarded to the layout), and the layout has lost exactly the
  \<open>k\<close> targets that come before the target at which \<open>remove\<close> raised; it is unchanged
  when that is the first target.
\<close>

theorem stale_option_raises:
  "(stale (heap g) capture_group (layout g) \<longrightarrow>
      (\<exists>k lay'. k < length capture_group
         \<and> execute_capture g player played_card capture_group = (Raised ValueError, g\<lparr>layout := lay'\<rparr>)
         \<and> image_mset (item_value (heap g)) (mset (layout g)) =
             image_mset (item_value (heap g)) (mset lay')
               + image_mset (item_value (heap g)) (mset (take k capture_group))
         \<and> item_value (heap g) (capture_group ! k) \<notin> item_value (heap g) ` set lay'
         \<and> (k = 0 \<longrightarrow> lay' = layout g)))
   \<and> (c_type cfg \<in> {None, Some ''single''} \<and> c_cards cfg = Some config_cards
        \<and> c_total_value cfg = Some t
        \<and> stale (heap g) (map CardItem config_cards) (layout g) \<longrightarrow>
      (\<exists>k lay'. k < length config_cards
         \<and> execute_build g player played_card cfg = (Raised ValueError, g\<lparr>layout := lay'\<rparr>)
         \<and> image_mset (item_value (heap g)) (mset (layout g)) =
             image_mset (item_value (heap g)) (mset lay')
               + image_mset (item_value (heap g)) (mset (map CardItem (take k config_cards)))
         \<and> item_value (heap g) (CardItem (config_cards ! k)) \<notin> item_value (heap g) ` set lay'
         \<and> (k = 0 \<longrightarrow> lay' = layout g)))"
proof (intro conjI impI)
  assume st: "stale (heap g) capture_group (layout g)"
  then have ne: "capture_group \<noteq> []" by (auto simp: stale_def)
  from st remove_captured_stale[of capture_group "heap g" "layout g" "[]"]
  obtain k lay' acc' where k: "k < length capture_group"
     "remove_captured (heap g) capture_group (layout g) [] = (Some ValueError, lay', acc')"
     "image_mset (item_value (heap g)) (mset (layout g)) =
             image_mset (item_value (heap g)) (mset lay')
               + image_mset (item_value (heap g)) (mset (take k capture_group))"
     "item_value (heap g) (capture_group ! k) \<notin> item_value (heap g) ` set lay'"
     "k = 0 \<longrightarrow> lay' = layout g"
    unfolding stale_def by blast
  have "execute_capture g player played_card capture_group = (Raised ValueError, g\<lparr>layout := lay'\<rparr>)"
    using ne k(2) by (simp add: execute_capture_def)
  with k show "\<exists>k lay'. k < length capture_group
         \<and> execute_capture g player played_card capture_group = (Raised ValueError, g\<lparr>layout := lay'\<rparr>)
         \<and> image_mset (item_value (heap g)) (mset (layout g)) =
             image_mset (item_value (heap g)) (mset lay')
               + image_mset (item_value (heap g)) (mset (take k capture_group))
         \<and> item_value (heap g) (capture_group ! k) \<notin> item_value (heap g) ` set lay'
         \<and> (k = 0 \<longrightarrow> lay' = layout g)"
    by blast
next
  assume a: "c_type cfg \<in> {None, Some ''single''} \<and> c_cards cfg = Some config_cards
        \<and> c_total_value cfg = Some t
        \<and> stale (heap g) (map CardItem config_cards) (layout g)"
  then have st: "stale (heap g) (map CardItem config_cards) (layout g)" by simp
  from st remove_captured_stale[of "map CardItem config_cards" "heap g" "layout g" "[]"]
  obtain k lay' acc' where k: "k < length config_cards"
     "remove_captured (heap g) (map CardItem config_cards) (layout g) [] = (Some ValueError, lay', acc')"
     "image_mset (item_value (heap g)) (mset (layout g)) =
             image_mset (item_value (heap g)) (mset lay')
               + image_mset (item_value (heap g)) (mset (take k (map CardItem config_cards)))"
     "item_value (heap g) (map CardItem config_cards ! k) \<notin> item_value (heap g) ` set lay'"
     "k = 0 \<longrightarrow> lay' = layout g"
    unfolding stale_def by auto
  have ru: "remove_used (heap g) config_cards (layout g) = (Some ValueError, lay')"
    using remove_used_captured[of "heap g" config_cards "layout g" "[]"] k(2) by simp
  have "execute_build g player played_card cfg = (Raised ValueError, g\<lparr>layout := lay'\<rparr>)"
    using a ru by (auto simp: execute_build_def)
  with k show "\<exists>k lay'. k < length config_cards
         \<and> execute_build g player played_card cfg = (Raised ValueError, g\<lparr>layout := lay'\<rparr>)
         \<and> image_mset (item_value (heap g)) (mset (layout g)) =
             image_mset (item_value (heap g)) (mset lay')
               + image_mset (item_value (heap g)) (mset (map CardItem (take k config_cards)))
         \<and> item_value (heap g) (CardItem (config_cards ! k)) \<notin> item_value (heap g) ` set lay'
         \<and> (k = 0 \<longrightarrow> lay' = layout g)"
    by (auto simp: take_map)
qed

text \<open>
  The claim as the specification states it, that a stale option leaves the game state
  unchanged, fails: the four of diamonds has left the layout, and the stale group of the
  three of spades and the four of diamonds makes \<open>execute_capture\<close> remove the three
  before it raises on the four.
\<close>

theorem stale_capture_changes_layout:
  "stale (heap stale_game) stale_group (layout stale_game)
   \<and> execute_capture stale_game 0 (Card (Pip 7) CLUBS) stale_group
       = (Raised ValueError, stale_game\<lparr>layout := [CardItem (Card (Pip 7) HEARTS)]\<rparr>)
   \<and> layout (snd (execute_capture stale_game 0 (Card (Pip 7) CLUBS) stale_group))
       \<noteq> layout stale_game"
  by (simp add: stale_def stale_game_def stale_group_def execute_capture_def item_value_def
      item_cards_def)



text \<open>
  The stale group and a stale build configuration over the same two cards both raise
  ValueError on the example.
\<close>

theorem stale_option_raises_witness:
  "stale (heap stale_game) stale_group (layout stale_game)
   \<and> (\<exists>k lay'. k < length stale_group
         \<and> execute_capture stale_game 0 (Card (Pip 7) CLUBS) stale_group
             = (Raised ValueError, stale_game\<lparr>layout := lay'\<rparr>))
   \<and> (\<exists>k lay'. k < length [Card (Pip 3) SPADES, Card (Pip 4) DIAMONDS]
         \<and> execute_build stale_game 0 (Card (Pip 2) CLUBS)
             (single_config [Card (Pip 3) SPADES, Card (Pip 4) DIAMONDS] (Card (Pip 2) CLUBS) 9)
             = (Raised ValueError, stale_game\<lparr>layout := lay'\<rparr>))"
proof -
  have st: "stale (heap stale_game) stale_group (layout stale_game)"
    by (simp add: stale_def stale_game_def stale_group_def item_value_def)
  have st2: "stale (heap stale_game) (map CardItem [Card (Pip 3) SPADES, Card (Pip 4) DIAMONDS])
               (layout stale_game)"
    using st by (simp add: stale_group_def)
  have cfg: "c_type (single_config [Card (Pip 3) SPADES, Card (Pip 4) DIAMONDS] (Card (Pip 2) CLUBS) 9)
                \<in> {None, Some ''single''}"
     "c_cards (single_config [Card (Pip 3) SPADES, Card (Pip 4) DIAMONDS] (Card (Pip 2) CLUBS) 9)
        = Some [Card (Pip 3) SPADES, Card (Pip 4) DIAMONDS]"
     "c_total_value (single_config [Card (Pip 3) SPADES, Card (Pip 4) DIAMONDS] (Card (Pip 2) CLUBS) 9)
        = Some 9"
    by (simp_all add: single_config_def empty_config_def)
  note inst = stale_option_raises [where g = stale_game and capture_group = stale_group
      and cfg = "single_config [Card (Pip 3) SPADES, Card (Pip 4) DIAMONDS] (Card (Pip 2) CLUBS) 9"
      and config_cards = "[Card (Pip 3) SPADES, Card (Pip 4) DIAMONDS]" and t = 9 and player = 0]
  from inst [where played_card = "Card (Pip 7) CLUBS"] st
  have a: "\<exists>k lay'. k < length stale_group
         \<and> execute_capture stale_game 0 (Card (Pip 7) CLUBS) stale_group
             = (Raised ValueError, stale_game\<lparr>layout := lay'\<rparr>)"
    by blast
  from inst [where played_card = "Card (Pip 2) CLUBS"] st2 cfg
  have b: "\<exists>k lay'. k < length [Card (Pip 3) SPADES, Card (Pip 4) DIAMONDS]
         \<and> execute_build stale_game 0 (Card (Pip 2) CLUBS)
             (single_config [Card (Pip 3) SPADES, Card (Pip 4) DIAMONDS] (Card (Pip 2) CLUBS) 9)
             = (Raised ValueError, stale_game\<lparr>layout := lay'\<rparr>)"
    by blast
  from st a b show ?thesis by blast
qed


subsection \<open>Build validity\<close>





lemma eight_totals: "calculate_total [Card (Pip 3) DIAMONDS, Card (Pip 5) CLUBS] = [8]"
  by code_simp

lemma eighteen_totals:
  "calculate_total [Card (Pip 3) DIAMONDS, Card (Pip 5) CLUBS, Card (Pip 2) SPADES, Card (Pip 8) DIAMONDS] = [18]"
  by code_simp











text \<open>
  The branch \<open>augment_own_build\<close> of \<open>execute_build\<close> is reached only by a dictionary
  with a \<open>type\<close> entry other than \<open>single\<close>, which no function of the program builds.
  Reached so, it keeps \<open>total_value\<close> and adds two cards: the build of total 8 would hold
  four cards that make 18.
\<close>

lemma typed_augmentation_breaks_validity:
  "builds_valid own_build_game
   \<and> execute_build own_build_game 0 (Card (Pip 2) SPADES) own_build_option =
       (Returned True,
        own_build_game\<lparr>layout := [BuildItem 0],
          heap := (heap own_build_game)(0 := the_eight_build
            \<lparr>cards := [Card (Pip 3) DIAMONDS, Card (Pip 5) CLUBS, Card (Pip 2) SPADES,
                       Card (Pip 8) DIAMONDS],
             is_augmented := True\<rparr>)\<rparr>)
   \<and> \<not> builds_valid (snd (execute_build own_build_game 0 (Card (Pip 2) SPADES) own_build_option))"
proof -
  have a: "builds_valid own_build_game"
    by (simp add: builds_valid_def own_build_game_def get_builds_def the_eight_build_def eight_totals)
  have b: "execute_build own_build_game 0 (Card (Pip 2) SPADES) own_build_option =
       (Returned True,
        own_build_game\<lparr>layout := [BuildItem 0],
          heap := (heap own_build_game)(0 := the_eight_build
            \<lparr>cards := [Card (Pip 3) DIAMONDS, Card (Pip 5) CLUBS, Card (Pip 2) SPADES,
                       Card (Pip 8) DIAMONDS],
             is_augmented := True\<rparr>)\<rparr>)"
    by (simp add: execute_build_def own_build_option_def augment_config_def empty_config_def
        own_build_game_def get_loose_cards_def item_value_def the_eight_build_def)
  have c: "\<not> builds_valid (snd (execute_build own_build_game 0 (Card (Pip 2) SPADES) own_build_option))"
    unfolding b
    by (simp add: builds_valid_def own_build_game_def get_builds_def the_eight_build_def eighteen_totals)
  from a b c show ?thesis by simp
qed

subsection \<open>Card conservation\<close>

lemma pile_top_conserved: "mset (all_cards pile_top_start) = mset (create_deck True)"
  by code_simp

text \<open>
  Claim C1 (card conservation) fails on the code. The example holds the 40 cards of the
  deck once each. The first player plays the two of spades; \<open>can_augment_build\<close> offers
  the augmentation of the own build with the eight of hearts, the top card of the
  opponent's capture pile. Given that dictionary, which has no \<open>type\<close> entry,
  \<open>execute_build\<close> takes the creation branch and raises KeyError, the played two being in
  no zone. Given the same dictionary with a \<open>type\<close> entry, it returns \<open>True\<close> and the
  eight of hearts is then both the top card of the opponent's pile and a card of the
  build: it occurs twice among the cards of the game.
\<close>

theorem pile_top_augmentation_duplicates:
  "mset (all_cards pile_top_start) = mset (create_deck True)
   \<and> play_card (players pile_top_start ! 0) 0
       = Inr (Card (Pip 2) SPADES, players pile_top_game ! 0)
   \<and> pile_top_option \<in> set (can_augment_build pile_top_game (Card (Pip 2) SPADES) 0)
   \<and> execute_build pile_top_game 0 (Card (Pip 2) SPADES) pile_top_option
       = (Raised KeyError, pile_top_game)
   \<and> count_list (all_cards pile_top_game) (Card (Pip 2) SPADES) = 0
   \<and> fst (execute_build pile_top_game 0 (Card (Pip 2) SPADES) pile_top_option_typed)
       = Returned True
   \<and> get_top_card (players (snd (execute_build pile_top_game 0 (Card (Pip 2) SPADES)
        pile_top_option_typed)) ! 1) = Some (Card (Pip 8) HEARTS)
   \<and> cards (heap (snd (execute_build pile_top_game 0 (Card (Pip 2) SPADES)
        pile_top_option_typed)) 0)
       = [Card (Pip 3) DIAMONDS, Card (Pip 5) CLUBS, Card (Pip 2) SPADES, Card (Pip 8) HEARTS]
   \<and> count_list (all_cards (snd (execute_build pile_top_game 0 (Card (Pip 2) SPADES)
        pile_top_option_typed))) (Card (Pip 8) HEARTS) = 2"
proof (intro conjI)
  show "mset (all_cards pile_top_start) = mset (create_deck True)" by (rule pile_top_conserved)
  show "play_card (players pile_top_start ! 0) 0
       = Inr (Card (Pip 2) SPADES, players pile_top_game ! 0)"
    by (simp add: play_card_def pile_top_start_def pile_top_game_def)
  show "pile_top_option \<in> set (can_augment_build pile_top_game (Card (Pip 2) SPADES) 0)"
    by code_simp
  show "execute_build pile_top_game 0 (Card (Pip 2) SPADES) pile_top_option
       = (Raised KeyError, pile_top_game)"
    by (simp add: execute_build_def pile_top_option_def augment_config_def empty_config_def)
  show "count_list (all_cards pile_top_game) (Card (Pip 2) SPADES) = 0"
    by code_simp
  show "fst (execute_build pile_top_game 0 (Card (Pip 2) SPADES) pile_top_option_typed)
       = Returned True"
    by code_simp
  show "get_top_card (players (snd (execute_build pile_top_game 0 (Card (Pip 2) SPADES)
        pile_top_option_typed)) ! 1) = Some (Card (Pip 8) HEARTS)"
    by code_simp
  show "cards (heap (snd (execute_build pile_top_game 0 (Card (Pip 2) SPADES)
        pile_top_option_typed)) 0)
       = [Card (Pip 3) DIAMONDS, Card (Pip 5) CLUBS, Card (Pip 2) SPADES, Card (Pip 8) HEARTS]"
    by code_simp
  show "count_list (all_cards (snd (execute_build pile_top_game 0 (Card (Pip 2) SPADES)
        pile_top_option_typed))) (Card (Pip 8) HEARTS) = 2"
    by code_simp
qed


subsection \<open>Special cards in the score\<close>

lemma add_score_Inr:
  "add_score pid n s = Inr s' \<Longrightarrow>
     s' x = map_option (\<lambda>v. v + int (count_list [pid] x) * n) (s x)"
  by (cases "s pid"; cases "s x") (auto simp: add_score_def)

lemma fold_add_score_Inr:
  "fold_err (\<lambda>pid. add_score pid n) pids s = Inr s' \<Longrightarrow>
     s' x = map_option (\<lambda>v. v + int (count_list pids x) * n) (s x)"
proof (induction pids arbitrary: s)
  case Nil
  then show ?case by (cases "s x") auto
next
  case (Cons p ps)
  from Cons.prems obtain s1 where s1: "add_score p n s = Inr s1"
    "fold_err (\<lambda>pid. add_score pid n) ps s1 = Inr s'"
    by (cases "add_score p n s") auto
  from Cons.IH[OF s1(2)] add_score_Inr[OF s1(1), of x]
  show ?case by (cases "s x") (auto simp: algebra_simps)
qed

lemma add_key_score_Inr:
  assumes "add_key_score k n s = Inr s'"
  shows "s' x = map_option (\<lambda>v. v + int (count_list (key_members k) x) * n) (s x)"
proof (cases k)
  case (PlayerKey p)
  with assms have "add_score p n s = Inr s'" by (simp add: add_key_score_def)
  from add_score_Inr[OF this, of x] PlayerKey show ?thesis
    by (simp add: key_members_def)
next
  case (PairKey ps)
  with assms have "fold_err (\<lambda>pid. add_score pid n) ps s = Inr s'" by (simp add: add_key_score_def)
  from fold_add_score_Inr[OF this, of x] PairKey show ?thesis
    by (simp add: key_members_def)
qed

lemma add_special_scores_Inr:
  "add_special_scores kvs s = Inr s' \<Longrightarrow> s' x = map_option (\<lambda>v. v + weighted kvs x) (s x)"
  unfolding add_special_scores_def
proof (induction kvs arbitrary: s)
  case Nil
  then show ?case by (cases "s x") (auto simp: weighted_def)
next
  case (Cons kv kvs)
  obtain k v where kv: "kv = (k, v)" by (cases kv)
  from Cons.prems kv obtain s1 where s1: "add_key_score k v s = Inr s1"
    "fold_err (\<lambda>(k, points). add_key_score k points) kvs s1 = Inr s'"
    by (cases "add_key_score k v s") auto
  from Cons.IH[OF s1(2)] add_key_score_Inr[OF s1(1), of x] kv
  show ?case by (cases "s x") (auto simp: weighted_def algebra_simps)
qed

lemma fold_add_key_score_dom:
  "fold_err (\<lambda>w. add_key_score w n) ws s = Inr s' \<Longrightarrow> s x = Some v \<Longrightarrow> \<exists>v'. s' x = Some v'"
proof (induction ws arbitrary: s v)
  case Nil
  then show ?case by simp
next
  case (Cons w ws)
  from Cons.prems obtain s1 where s1: "add_key_score w n s = Inr s1"
    "fold_err (\<lambda>w. add_key_score w n) ws s1 = Inr s'"
    by (cases "add_key_score w n s") auto
  from add_key_score_Inr[OF s1(1), of x] Cons.prems(2) obtain v1 where "s1 x = Some v1" by auto
  from Cons.IH[OF s1(2) this] show ?case .
qed

lemma award_most_dom:
  assumes "award_most counts s = Inr s'" "s x = Some v"
  shows "\<exists>v'. s' x = Some v'"
proof (cases "map snd counts")
  case Nil
  with assms(1) show ?thesis by (simp add: award_most_def)
next
  case (Cons c cs)
  let ?ws = "map fst (filter (\<lambda>(k, c'). c' = fold max cs c) counts)"
  show ?thesis
  proof (cases "length ?ws = 1")
    case True
    with assms(1) Cons have "add_key_score (hd ?ws) 2 s = Inr s'"
      by (simp add: award_most_def Let_def)
    from add_key_score_Inr[OF this, of x] assms(2) show ?thesis by auto
  next
    case False
    with assms(1) Cons have "fold_err (\<lambda>w. add_key_score w 1) ?ws s = Inr s'"
      by (simp add: award_most_def Let_def)
    from fold_add_key_score_dom[OF this assms(2)] show ?thesis .
  qed
qed

lemma award_majorities_dom:
  assumes "award_majorities g cc sc = Inr ms" "pid < length (players g)"
  shows "\<exists>m. ms pid = Some m"
proof (cases "total_points g = 11")
  case True
  let ?s0 = "\<lambda>pid. if pid < length (players g) then Some (0::int) else None"
  from assms(1) True obtain s1 where s1: "award_most cc ?s0 = Inr s1" "award_most sc s1 = Inr ms"
    by (cases "award_most cc ?s0") (auto simp: award_majorities_def Let_def)
  from award_most_dom[OF s1(1), of pid 0] assms(2) obtain v1 where "s1 pid = Some v1" by auto
  from award_most_dom[OF s1(2) this] show ?thesis .
next
  case False
  with assms show ?thesis by (auto simp: award_majorities_def Let_def)
qed

lemma weighted_dd_add:
  "weighted (dd_add k n kvs) x = weighted kvs x + int (count_list (key_members k) x) * n"
  by (induction kvs) (auto simp: weighted_def algebra_simps)

lemma tally_player_special:
  assumes "tally_player g i (cc, sc, sp) = Inr (cc', sc', sp')"
  shows "weighted sp' x =
           weighted sp x + int (count_list (unit_members g i) x) * special_points (players g ! i)"
proof -
  from assms obtain k where k: "score_key g i = Inr k"
    by (cases "score_key g i") (auto simp: tally_player_def)
  then have um: "unit_members g i = key_members k" by (simp add: unit_members_def)
  from assms k show ?thesis
    unfolding um
    by (auto simp: tally_player_def Let_def weighted_dd_add special_points_def has_card_def
        algebra_simps)
qed

lemma fold_tally_special:
  "fold_err (tally_player g) qs (cc, sc, sp) = Inr (cc', sc', sp') \<Longrightarrow>
     weighted sp' x = weighted sp x
       + (\<Sum>q\<leftarrow>qs. int (count_list (unit_members g q) x) * special_points (players g ! q))"
proof (induction qs arbitrary: cc sc sp)
  case Nil
  then show ?case by simp
next
  case (Cons q qs)
  from Cons.prems obtain cc1 sc1 sp1 where
    s1: "tally_player g q (cc, sc, sp) = Inr (cc1, sc1, sp1)"
        "fold_err (tally_player g) qs (cc1, sc1, sp1) = Inr (cc', sc', sp')"
    by (cases "tally_player g q (cc, sc, sp)") auto
  from Cons.IH[OF s1(2)] tally_player_special[OF s1(1), of x]
  show ?case by simp
qed

lemma sum_if_eq_upt:
  "(\<Sum>q\<leftarrow>[m ..< n]. if q = pid then f q else (0::int)) = (if m \<le> pid \<and> pid < n then f pid else 0)"
  by (induction n) auto

lemma sum_single_member:
  assumes "pid < n"
  shows "(\<Sum>q\<leftarrow>[0 ..< n]. int (count_list [q] pid) * f q) = f pid"
proof -
  have "(\<Sum>q\<leftarrow>[0 ..< n]. int (count_list [q] pid) * f q)
          = (\<Sum>q\<leftarrow>[0 ..< n]. if q = pid then f q else 0)"
    by (rule arg_cong[where f = sum_list]) (rule map_cong, auto)
  also have "\<dots> = f pid"
    using assms by (simp add: sum_if_eq_upt)
  finally show ?thesis .
qed

lemma partner_in_Some:
  "partner_in ps q = Some r \<Longrightarrow> (q, r) \<in> set ps \<or> (r, q) \<in> set ps"
  by (induction ps q rule: partner_in.induct) (auto split: if_splits)

lemma partner_in_disjoint:
  assumes "pairs_disjoint ps" and "(a, b) \<in> set ps"
  shows "partner_in ps a = Some b \<and> partner_in ps b = Some a \<and> a \<noteq> b"
  using assms
proof (induction ps)
  case Nil
  then show ?case by simp
next
  case (Cons p ps)
  obtain c d where p: "p = (c, d)" by (cases p)
  show ?case
  proof (cases "(a, b) = (c, d)")
    case True
    with Cons.prems p show ?thesis by (auto simp: pairs_disjoint_def)
  next
    case False
    with Cons.prems p have in_ps: "(a, b) \<in> set ps" by auto
    from Cons.prems(1) p have d: "pairs_disjoint ps" by (simp add: pairs_disjoint_def)
    from in_ps have "a \<in> set (concat (map (\<lambda>(a, b). [a, b]) ps))"
      "b \<in> set (concat (map (\<lambda>(a, b). [a, b]) ps))" by force+
    with Cons.prems(1) p have "a \<noteq> c" "a \<noteq> d" "b \<noteq> c" "b \<noteq> d"
      by (auto simp: pairs_disjoint_def)
    with Cons.IH[OF d in_ps] p show ?thesis by simp
  qed
qed

lemma pairs_disjoint_unique:
  assumes "pairs_disjoint ps"
    and "(q, r) \<in> set ps \<or> (r, q) \<in> set ps"
    and "(p, r) \<in> set ps \<or> (r, p) \<in> set ps"
  shows "q = p"
proof -
  from assms(2) obtain r1 where r1: "partner_in ps r = Some r1" "r1 = q"
    using partner_in_disjoint[OF assms(1)] by blast
  from assms(3) have "partner_in ps r = Some p"
    using partner_in_disjoint[OF assms(1)] by blast
  with r1 show ?thesis by simp
qed

lemma count_list_sort_pair:
  "count_list (sort [q, r]) x = (if q = x then 1 else 0) + (if r = x then 1 else (0::nat))"
proof -
  have "count_list (sort [q, r]) x = count (mset (sort [q, r])) x" by (simp only: count_mset)
  also have "\<dots> = count (mset [q, r]) x" by (simp only: mset_sort)
  finally show ?thesis by simp
qed

lemma fold_tally_keys:
  "fold_err (tally_player g) qs acc = Inr r \<Longrightarrow> q \<in> set qs \<Longrightarrow> \<exists>k. score_key g q = Inr k"
proof (induction qs arbitrary: acc)
  case Nil
  then show ?case by simp
next
  case (Cons x xs)
  from Cons.prems(1) obtain acc1 where a1: "tally_player g x acc = Inr acc1"
    "fold_err (tally_player g) xs acc1 = Inr r"
    by (cases "tally_player g x acc") auto
  show ?case
  proof (cases "q = x")
    case True
    with a1(1) show ?thesis by (cases "score_key g x") (auto simp: tally_player_def)
  next
    case False
    with Cons.prems(2) have "q \<in> set xs" by simp
    from Cons.IH[OF a1(2) this] show ?thesis .
  qed
qed

text \<open>
  The score is what the majorities gave plus, for every player, the special points of
  that player as often as the key of that player names the scored one.
\<close>

lemma scores_special_sum:
  assumes "calculate_scores g = Inr scores" and "pid < length (players g)"
  shows "\<exists>card_counts spade_counts special_scores ms m.
           tally g = Inr (card_counts, spade_counts, special_scores)
         \<and> award_majorities g card_counts spade_counts = Inr ms
         \<and> ms pid = Some m
         \<and> scores pid = Some (m + (\<Sum>q\<leftarrow>[0 ..< length (players g)].
                int (count_list (unit_members g q) pid) * special_points (players g ! q)))"
proof -
  from assms(1) obtain cc sc sp where t: "tally g = Inr (cc, sc, sp)"
    by (cases "tally g") (auto simp: calculate_scores_def)
  with assms(1) obtain ms where ms: "award_majorities g cc sc = Inr ms"
    and fin: "add_special_scores sp ms = Inr scores"
    by (cases "award_majorities g cc sc") (auto simp: calculate_scores_def)
  from award_majorities_dom[OF ms assms(2)] obtain m where m: "ms pid = Some m" by blast
  let ?sum = "\<Sum>q\<leftarrow>[0 ..< length (players g)].
                int (count_list (unit_members g q) pid) * special_points (players g ! q)"
  have w: "weighted sp pid = ?sum"
    using fold_tally_special[of g "[0 ..< length (players g)]" "[]" "[]" "[]" cc sc sp pid] t
    by (simp add: tally_def weighted_def)
  have sc: "scores pid = Some (m + ?sum)"
    using add_special_scores_Inr[OF fin, of pid] m w by simp
  from t ms m sc show ?thesis by blast
qed

lemma partner_members:
  assumes "partnerships g = Some ps" and "pairs_disjoint ps"
    and "(pid, partner) \<in> set ps \<or> (partner, pid) \<in> set ps"
    and "score_key g q = Inr k"
  shows "count_list (unit_members g q) pid
           = (if q = pid then 1 else 0) + (if q = partner then 1 else 0)"
proof -
  from assms(1,4) obtain r where r: "partner_in ps q = Some r" "k = PairKey (sort [q, r])"
    by (cases "partner_in ps q")
       (auto simp: score_key_def is_partnership_game_def get_partner_id_def)
  have "r = pid \<longleftrightarrow> q = partner"
  proof
    assume "r = pid"
    with partner_in_Some[OF r(1)] have "(q, pid) \<in> set ps \<or> (pid, q) \<in> set ps" by simp
    from pairs_disjoint_unique[OF assms(2) this, of partner] assms(3)
    show "q = partner" by blast
  next
    assume "q = partner"
    with assms(3) partner_in_disjoint[OF assms(2)] have "partner_in ps q = Some pid" by blast
    with r(1) show "r = pid" by simp
  qed
  with assms(4) r(2) show ?thesis
    by (simp add: unit_members_def key_members_def count_list_sort_pair del: sort_key_simps)
qed

lemma sum_two_members:
  assumes "pid < n" and "partner < n"
  shows "(\<Sum>q\<leftarrow>[0 ..< n]. int ((if q = pid then 1 else 0) + (if q = partner then 1 else 0)) * f q)
           = f pid + f partner"
proof -
  have "(\<Sum>q\<leftarrow>[0 ..< n]. int ((if q = pid then 1 else 0) + (if q = partner then 1 else 0)) * f q)
          = (\<Sum>q\<leftarrow>[0 ..< n]. (if q = pid then f q else 0) + (if q = partner then f q else 0))"
    by (rule arg_cong[where f = sum_list]) (rule map_cong, auto)
  also have "\<dots> = (\<Sum>q\<leftarrow>[0 ..< n]. if q = pid then f q else 0)
                    + (\<Sum>q\<leftarrow>[0 ..< n]. if q = partner then f q else 0)"
    by (rule sum_list_addf)
  also have "\<dots> = f pid + f partner"
    using assms by (simp add: sum_if_eq_upt)
  finally show ?thesis .
qed

text \<open>
  Claim C9 (special cards). When \<open>calculate_scores\<close> returns, the score of a player is
  what the awards for most cards and most spades gave plus special points: in a game
  without partnerships the special points of that player, in a partnership game (no
  player in two partnerships) the special points of that player and of the partner the
  list of partnerships names. The special points of a player are 1 for the two of spades
  and 2 for the ten of diamonds when the card is in that player's capture pile or still
  in that player's hand, and 1 for each ace of the capture pile only; so a special card
  resting in a hand scores, an ace in a hand does not.
\<close>

theorem special_cards_count_hand:
  assumes "calculate_scores g = Inr scores" and "pid < length (players g)"
  shows "\<exists>card_counts spade_counts special_scores ms m.
           tally g = Inr (card_counts, spade_counts, special_scores)
         \<and> award_majorities g card_counts spade_counts = Inr ms
         \<and> ms pid = Some m
         \<and> (partnerships g = None \<longrightarrow>
                scores pid = Some (m + special_points (players g ! pid)))
         \<and> (\<forall>ps partner.
                partnerships g = Some ps \<and> pairs_disjoint ps
                \<and> ((pid, partner) \<in> set ps \<or> (partner, pid) \<in> set ps)
                \<and> partner < length (players g) \<longrightarrow>
                scores pid = Some (m + special_points (players g ! pid)
                                     + special_points (players g ! partner)))"
proof -
  from scores_special_sum[OF assms] obtain cc sc sp ms m where
    t: "tally g = Inr (cc, sc, sp)" and ms: "award_majorities g cc sc = Inr ms"
    and m: "ms pid = Some m"
    and sc: "scores pid = Some (m + (\<Sum>q\<leftarrow>[0 ..< length (players g)].
                int (count_list (unit_members g q) pid) * special_points (players g ! q)))"
    by blast
  let ?f = "\<lambda>q. special_points (players g ! q)"
  have solo: "partnerships g = None \<longrightarrow> scores pid = Some (m + ?f pid)"
  proof
    assume "partnerships g = None"
    then have "\<And>q. unit_members g q = [q]"
      by (simp add: unit_members_def score_key_def key_members_def is_partnership_game_def)
    then have "(\<Sum>q\<leftarrow>[0 ..< length (players g)]. int (count_list (unit_members g q) pid) * ?f q)
                 = ?f pid"
      using sum_single_member[OF assms(2), of ?f] by simp
    with sc show "scores pid = Some (m + ?f pid)" by simp
  qed
  have pair: "\<forall>ps partner.
                partnerships g = Some ps \<and> pairs_disjoint ps
                \<and> ((pid, partner) \<in> set ps \<or> (partner, pid) \<in> set ps)
                \<and> partner < length (players g) \<longrightarrow>
                scores pid = Some (m + ?f pid + ?f partner)"
  proof (intro allI impI)
    fix ps partner
    assume a: "partnerships g = Some ps \<and> pairs_disjoint ps
                \<and> ((pid, partner) \<in> set ps \<or> (partner, pid) \<in> set ps)
                \<and> partner < length (players g)"
    have "map (\<lambda>q. int (count_list (unit_members g q) pid) * ?f q) [0 ..< length (players g)]
            = map (\<lambda>q. int ((if q = pid then 1 else 0) + (if q = partner then 1 else 0)) * ?f q)
                [0 ..< length (players g)]"
    proof (rule map_cong[OF refl])
      fix q assume "q \<in> set [0 ..< length (players g)]"
      with t obtain k where "score_key g q = Inr k"
        unfolding tally_def using fold_tally_keys by blast
      with a partner_members[of g ps pid partner q k]
      show "int (count_list (unit_members g q) pid) * ?f q
              = int ((if q = pid then 1 else 0) + (if q = partner then 1 else 0)) * ?f q"
        by simp
    qed
    then have "(\<Sum>q\<leftarrow>[0 ..< length (players g)]. int (count_list (unit_members g q) pid) * ?f q)
                 = (\<Sum>q\<leftarrow>[0 ..< length (players g)].
                      int ((if q = pid then 1 else 0) + (if q = partner then 1 else 0)) * ?f q)"
      by (rule arg_cong[where f = sum_list])
    also have "\<dots> = ?f pid + ?f partner"
      using a by (intro sum_two_members[OF assms(2)]) simp
    finally have "(\<Sum>q\<leftarrow>[0 ..< length (players g)]. int (count_list (unit_members g q) pid) * ?f q)
                 = ?f pid + ?f partner" .
    with sc show "scores pid = Some (m + ?f pid + ?f partner)" by simp
  qed
  show ?thesis
    apply (rule exI[of _ cc], rule exI[of _ sc], rule exI[of _ sp], rule exI[of _ ms],
           rule exI[of _ m])
    using t ms m solo pair by (intro conjI)
qed

lemma scoring_game_scores:
  "\<exists>scores. calculate_scores scoring_game = Inr scores \<and> scores 0 = Some 3 \<and> scores 1 = Some 6"
proof -
  have "case calculate_scores scoring_game of Inl e \<Rightarrow> False
        | Inr scores \<Rightarrow> scores 0 = Some 3 \<and> scores 1 = Some 6"
    by code_simp
  then show ?thesis by (cases "calculate_scores scoring_game") auto
qed

lemma partnership_game_scores:
  "\<exists>scores. calculate_scores partnership_game = Inr scores
      \<and> scores 0 = Some 3 \<and> scores 1 = Some 6 \<and> scores 2 = Some 3 \<and> scores 3 = Some 6"
proof -
  have "case calculate_scores partnership_game of Inl e \<Rightarrow> False
        | Inr scores \<Rightarrow> scores 0 = Some 3 \<and> scores 1 = Some 6 \<and> scores 2 = Some 3
            \<and> scores 3 = Some 6"
    by code_simp
  then show ?thesis by (cases "calculate_scores partnership_game") auto
qed

text \<open>
  Without partnerships, the first player of the example never captured the two of
  spades but holds it, with an ace, at the end: the held two scores its point, the held
  ace scores nothing, and with the 2 points for most spades the score is 3. In the
  partnership game the first player scores 3 without any majority: 1 for the two of
  spades in the own hand and 2 for the ten of diamonds on the partner's pile.
\<close>

theorem special_cards_count_hand_witness:
  "(\<exists>scores m. calculate_scores scoring_game = Inr scores
      \<and> spy_two \<in> set (hand (players scoring_game ! 0))
      \<and> spy_two \<notin> set (capture_pile (players scoring_game ! 0))
      \<and> special_points (players scoring_game ! 0) = 1
      \<and> scores 0 = Some (m + special_points (players scoring_game ! 0))
      \<and> scores 0 = Some 3)
   \<and> (\<exists>scores m. calculate_scores partnership_game = Inr scores
      \<and> partnerships partnership_game = Some [(0, 2), (1, 3)]
      \<and> special_points (players partnership_game ! 0) = 1
      \<and> special_points (players partnership_game ! 2) = 2
      \<and> scores 0 = Some (m + special_points (players partnership_game ! 0)
                             + special_points (players partnership_game ! 2))
      \<and> scores 0 = Some 3)"
proof
  from scoring_game_scores obtain scores where
    s: "calculate_scores scoring_game = Inr scores" "scores 0 = Some 3"
    by blast
  have n: "0 < length (players scoring_game)" "partnerships scoring_game = None"
    by (simp_all add: scoring_game_def)
  from special_cards_count_hand [OF s(1) n(1)] n(2)
  obtain m where m: "scores 0 = Some (m + special_points (players scoring_game ! 0))"
    by blast
  have "spy_two \<in> set (hand (players scoring_game ! 0))"
    "spy_two \<notin> set (capture_pile (players scoring_game ! 0))"
    "special_points (players scoring_game ! 0) = 1"
    by (simp_all add: scoring_game_def spy_two_def big_ten_def special_points_def)
  with s m show "\<exists>scores m. calculate_scores scoring_game = Inr scores
      \<and> spy_two \<in> set (hand (players scoring_game ! 0))
      \<and> spy_two \<notin> set (capture_pile (players scoring_game ! 0))
      \<and> special_points (players scoring_game ! 0) = 1
      \<and> scores 0 = Some (m + special_points (players scoring_game ! 0))
      \<and> scores 0 = Some 3"
    by blast
next
  from partnership_game_scores obtain scores where
    s: "calculate_scores partnership_game = Inr scores" "scores 0 = Some 3"
    by blast
  have n: "0 < length (players partnership_game)" "2 < length (players partnership_game)"
    "partnerships partnership_game = Some [(0, 2), (1, 3)]"
    by (simp_all add: partnership_game_def)
  have d: "pairs_disjoint [(0, 2), (1, 3)]"
    by (simp add: pairs_disjoint_def)
  from special_cards_count_hand [OF s(1) n(1)] n(2,3) d
  obtain m where m: "scores 0 = Some (m + special_points (players partnership_game ! 0)
                             + special_points (players partnership_game ! 2))"
    by fastforce
  have "special_points (players partnership_game ! 0) = 1"
    "special_points (players partnership_game ! 2) = 2"
    by (simp_all add: partnership_game_def spy_two_def big_ten_def special_points_def)
  with s m n(3) show "\<exists>scores m. calculate_scores partnership_game = Inr scores
      \<and> partnerships partnership_game = Some [(0, 2), (1, 3)]
      \<and> special_points (players partnership_game ! 0) = 1
      \<and> special_points (players partnership_game ! 2) = 2
      \<and> scores 0 = Some (m + special_points (players partnership_game ! 0)
                             + special_points (players partnership_game ! 2))
      \<and> scores 0 = Some 3"
    by blast
qed

end
